theory Spec2Isabelle
  imports Main "HOL-Library.AList" "HOL-Library.Sublist"
begin

section \<open>Values\<close>

text \<open>
  The scripts work on what \<^verbatim>\<open>resp.json()\<close> returns: \<^verbatim>\<open>None\<close>, booleans, numbers,
  strings, lists and dictionaries with string keys. Numbers are integers here (JSON
  floats are left out). A Python \<^verbatim>\<open>dict\<close> keeps its keys in insertion order, so a
  dictionary is an association list: the order of the pairs is the iteration order.
\<close>

datatype json =
    JNull
  | JBool bool
  | JNum int
  | JStr string
  | JList "json list"
  | JObj "(string \<times> json) list"

type_synonym sdict = "(string \<times> json) list"

datatype error = AttributeError | TypeError

text \<open>Python truthiness: \<^verbatim>\<open>if x:\<close> and \<^verbatim>\<open>not x\<close>.\<close>

fun truthy :: "json \<Rightarrow> bool" where
  "truthy JNull = False"
| "truthy (JBool b) = b"
| "truthy (JNum n) = (n \<noteq> 0)"
| "truthy (JStr s) = (s \<noteq> [])"
| "truthy (JList xs) = (xs \<noteq> [])"
| "truthy (JObj kvs) = (kvs \<noteq> [])"

text \<open>Lists and dictionaries are unhashable: using one as a dictionary key raises
  \<^verbatim>\<open>TypeError\<close>.\<close>

fun hashable :: "json \<Rightarrow> bool" where
  "hashable (JList xs) = False"
| "hashable (JObj kvs) = False"
| "hashable v = True"

text \<open>Dictionary keys are compared with \<^verbatim>\<open>==\<close>, under which \<^verbatim>\<open>True == 1\<close> and
  \<^verbatim>\<open>False == 0\<close>.\<close>

fun key_norm :: "json \<Rightarrow> json" where
  "key_norm (JBool b) = JNum (if b then 1 else 0)"
| "key_norm v = v"

definition key_eq :: "json \<Rightarrow> json \<Rightarrow> bool" where
  "key_eq a b = (key_norm a = key_norm b)"

text \<open>\<^verbatim>\<open>d.get(k)\<close> on a dictionary with string keys: \<^verbatim>\<open>None\<close> when the key is absent.\<close>

definition dict_get :: "sdict \<Rightarrow> string \<Rightarrow> json" where
  "dict_get d k = (case map_of d k of None \<Rightarrow> JNull | Some v \<Rightarrow> v)"

definition dict_get_default :: "sdict \<Rightarrow> string \<Rightarrow> json \<Rightarrow> json" where
  "dict_get_default d k dflt = (case map_of d k of None \<Rightarrow> dflt | Some v \<Rightarrow> v)"

text \<open>Dictionaries keyed by values (\<^verbatim>\<open>unique_devices\<close>, \<^verbatim>\<open>nad_cache\<close>):
  \<^verbatim>\<open>k in d\<close>, \<^verbatim>\<open>d[k]\<close> and \<^verbatim>\<open>d[k] = v\<close>. An assignment to a key that is present
  replaces the value where it stands (the dictionary keeps the key object that was
  inserted first); a new key goes to the end.\<close>

fun vdict_lookup :: "(json \<times> 'a) list \<Rightarrow> json \<Rightarrow> 'a option" where
  "vdict_lookup [] k = None"
| "vdict_lookup ((k', v') # d) k = (if key_eq k' k then Some v' else vdict_lookup d k)"

fun vdict_set :: "(json \<times> 'a) list \<Rightarrow> json \<Rightarrow> 'a \<Rightarrow> (json \<times> 'a) list" where
  "vdict_set [] k v = [(k, v)]"
| "vdict_set ((k', v') # d) k v =
     (if key_eq k' k then (k', v) # d else (k', v') # vdict_set d k v)"

section \<open>Deduplicator\<close>

text \<open>
  \<^verbatim>\<open>
  unique_devices = {}
  for sess in raw_sessions:
      mac = sess.get("mac")
      if not mac:
          continue
      # Overwrite ensures we keep the latest session info found in the windows
      unique_devices[mac] = sess
  \<close>
  The elements of \<^verbatim>\<open>raw_sessions\<close> are whatever the upstream put into its
  \<^verbatim>\<open>records\<close> list: \<^verbatim>\<open>sess.get\<close> raises \<^verbatim>\<open>AttributeError\<close> on anything but a
  dictionary, and an unhashable \<^verbatim>\<open>mac\<close> raises \<^verbatim>\<open>TypeError\<close> at the assignment.
\<close>

type_synonym devices = "(json \<times> sdict) list"

fun dedup_step :: "devices \<Rightarrow> json \<Rightarrow> error + devices" where
  "dedup_step ud (JObj sess) =
     (let mac = dict_get sess ''mac'' in
      if \<not> truthy mac then Inr ud
      else if \<not> hashable mac then Inl TypeError
      else Inr (vdict_set ud mac sess))"
| "dedup_step ud v = Inl AttributeError"

fun dedup_loop :: "devices \<Rightarrow> json list \<Rightarrow> error + devices" where
  "dedup_loop ud [] = Inr ud"
| "dedup_loop ud (sess # rest) =
     (case dedup_step ud sess of
        Inl e \<Rightarrow> Inl e
      | Inr ud' \<Rightarrow> dedup_loop ud' rest)"

definition unique_devices :: "json list \<Rightarrow> error + devices" where
  "unique_devices raw_sessions = dedup_loop [] raw_sessions"


fun fields_of :: "json \<Rightarrow> sdict" where
  "fields_of (JObj sess) = sess"
| "fields_of v = []"


text \<open>Two sessions of one device, as two windows return them: the window nearest to
  now holds the newer session, the window before it the older one.\<close>

definition sess_new :: json where
  "sess_new = JObj [(''mac'', JStr ''AA:BB:CC:DD:EE:FF''), (''ip'', JStr ''10.0.0.2'')]"

definition sess_old :: json where
  "sess_old = JObj [(''mac'', JStr ''AA:BB:CC:DD:EE:FF''), (''ip'', JStr ''10.0.0.1'')]"

definition sess_blank :: json where
  "sess_blank = JObj [(''mac'', JStr []), (''ip'', JStr ''10.0.0.3'')]"

section \<open>Export Projector\<close>

text \<open>
  \<^verbatim>\<open>
  all_keys = set().union(*(d.keys() for d in final_records))
  sorted_keys = list(all_keys)
  for col in reversed(priority):
      if col in sorted_keys:
          sorted_keys.remove(col)
          sorted_keys.insert(0, col)
  \<close>
  The order in which \<^verbatim>\<open>list(all_keys)\<close> enumerates a set is not specified by
  Python, so that list is an input of the model: any list without repetitions whose
  elements are the keys of the records.
\<close>

definition all_keys :: "sdict list \<Rightarrow> string set" where
  "all_keys final_records = set (concat (map (map fst) final_records))"

definition move_to_front :: "string \<Rightarrow> string list \<Rightarrow> string list" where
  "move_to_front col sorted_keys =
     (if col \<in> set sorted_keys then col # remove1 col sorted_keys else sorted_keys)"

definition sorted_keys :: "string list \<Rightarrow> string list \<Rightarrow> string list" where
  "sorted_keys priority key_list = fold move_to_front (rev priority) key_list"

definition priority :: "string list" where
  "priority = [''mac'', ''username'', ''userID'', ''switch_name'', ''switch_interface'',
               ''ip'', ''deviceType'', ''segmentName'', ''location'', ''cert_expiry'']"

definition priority_cols :: "string list" where
  "priority_cols = [''mac'', ''username'', ''userID'', ''deviceType'', ''description'',
                    ''ip'', ''nadName'', ''segmentName'', ''location'', ''lastAuthAt'',
                    ''cert_expiry'']"

text \<open>The example of the specification: priority list A, B, C and records whose keys
  are B and D.\<close>

definition abc_priority :: "string list" where
  "abc_priority = [''A'', ''B'', ''C'']"

definition bd_records :: "sdict list" where
  "bd_records = [[(''D'', JNum 1)], [(''B'', JNum 2), (''D'', JNum 3)]]"

section \<open>Upstream service\<close>

text \<open>
  Every network call of the scripts is a \<^verbatim>\<open>session.post\<close> to one of four endpoints.
  A request records the endpoint and the part of the payload that varies; timestamps
  are microseconds (the resolution of \<^verbatim>\<open>datetime\<close>), unbounded.
  The upstream is a function from the request and the number of requests made before
  it to a response, so that it may answer the same request differently at different
  times. \<open>Failed\<close> stands for \<^verbatim>\<open>session.post\<close> raising a
  \<^verbatim>\<open>requests.exceptions.RequestException\<close> (connection error, timeout);
  \<open>Reply status body\<close> carries the status code and what \<^verbatim>\<open>resp.json()\<close> returns,
  \<open>None\<close> when the body is not JSON and \<^verbatim>\<open>resp.json()\<close> raises
  \<^verbatim>\<open>requests.exceptions.JSONDecodeError\<close> (a \<^verbatim>\<open>RequestException\<close> and a
  \<^verbatim>\<open>ValueError\<close>, as in requests 2.27 and later). The list of requests made so far is threaded through every call.
\<close>

datatype request =
    FailedSessions int int
  | SegmentSessions json int int
  | NadGet json
  | SessionDetailsGet json
  | ClientGet json

datatype response = Failed | Reply int "json option"

type_synonym upstream = "request \<Rightarrow> nat \<Rightarrow> response"

definition post :: "upstream \<Rightarrow> request \<Rightarrow> request list \<Rightarrow> response \<times> request list" where
  "post api req log = (api req (length log), log @ [req])"

text \<open>\<^verbatim>\<open>x.get(k, default)\<close> on a parsed value: only dictionaries have \<^verbatim>\<open>get\<close>.\<close>

fun json_get :: "json \<Rightarrow> string \<Rightarrow> json \<Rightarrow> error + json" where
  "json_get (JObj d) k dflt = Inr (dict_get_default d k dflt)"
| "json_get v k dflt = Inl AttributeError"

text \<open>\<^verbatim>\<open>all_sessions.extend(recs)\<close> appends the elements of a list, the characters of a
  string, the keys of a dictionary; a number is not iterable.\<close>

fun extend_items :: "json \<Rightarrow> error + json list" where
  "extend_items (JList xs) = Inr xs"
| "extend_items (JStr s) = Inr (map (\<lambda>c. JStr [c]) s)"
| "extend_items (JObj kvs) = Inr (map (\<lambda>kv. JStr (fst kv)) kvs)"
| "extend_items v = Inl TypeError"

text \<open>
  \<^verbatim>\<open>
  data = body.get("data", {})
  records = data.get("records", [])
  if records:
      all_sessions.extend(records)
  \<close>
  as the list of items a parsed body adds to the accumulator.
\<close>

definition window_records :: "json \<Rightarrow> error + json list" where
  "window_records body =
     (case json_get body ''data'' (JObj []) of
        Inl e \<Rightarrow> Inl e
      | Inr data \<Rightarrow>
          (case json_get data ''records'' (JList []) of
             Inl e \<Rightarrow> Inl e
           | Inr records \<Rightarrow> if truthy records then extend_items records else Inr []))"

section \<open>Window Paginator\<close>

definition minutes :: "int \<Rightarrow> int" where
  "minutes m = m * 60000000"

definition hours :: "int \<Rightarrow> int" where
  "hours h = h * 3600000000"

text \<open>
  The three scripts share the loop
  \<^verbatim>\<open>
  current_to = datetime.now(timezone.utc)
  current_from = current_to - timedelta(minutes=WINDOW_MINUTES)
  while current_from >= total_start_time:
      ... one query for the window ...
      current_to = current_from
      current_from = current_to - timedelta(minutes=WINDOW_MINUTES)
      time.sleep(0.1)
  \<close>
  and differ in what a window's query does: go on with the next window, leave the loop
  (\<^verbatim>\<open>break\<close>), or raise an exception that nothing catches. The loop does not end
  when the width is not positive, so its value is an option. The pause between the
  queries is not modelled.
\<close>

datatype 's step = Continue 's | Break 's | Raise error

partial_function (option) while_windows ::
  "(int \<Rightarrow> int \<Rightarrow> 's \<Rightarrow> 's step) \<Rightarrow> int \<Rightarrow> int \<Rightarrow> int \<Rightarrow> int \<Rightarrow> 's \<Rightarrow> (error + 's) option"
where
  "while_windows body width total_start_time current_to current_from st =
     (if current_from \<ge> total_start_time then
        (case body current_from current_to st of
           Continue st' \<Rightarrow>
             while_windows body width total_start_time current_from (current_from - width) st'
         | Break st' \<Rightarrow> Some (Inr st')
         | Raise e \<Rightarrow> Some (Inl e))
      else Some (Inr st))"

subsection \<open>test-client.py\<close>

text \<open>
  \<^verbatim>\<open>
  try:
      resp = session.post(url, json=payload, timeout=60)
      if resp.status_code == 200:
          recs = resp.json().get("data", {}).get("records", [])
          if recs: all_sessions.extend(recs)
  except Exception:
      pass # Skip failed windows to keep moving
  \<close>
\<close>

fun window_contribution :: "response \<Rightarrow> json list" where
  "window_contribution Failed = []"
| "window_contribution (Reply status None) = []"
| "window_contribution (Reply status (Some body)) =
     (if status = 200 then
        (case window_records body of Inl e \<Rightarrow> [] | Inr recs \<Rightarrow> recs)
      else [])"

definition window_query ::
  "upstream \<Rightarrow> json \<Rightarrow> int \<Rightarrow> int \<Rightarrow> json list \<times> request list \<Rightarrow> (json list \<times> request list) step"
where
  "window_query api segment_id current_from current_to st =
     (case st of (all_sessions, log) \<Rightarrow>
        (case post api (SegmentSessions segment_id current_from current_to) log of
           (resp, log') \<Rightarrow> Continue (all_sessions @ window_contribution resp, log')))"

definition get_sessions_time_sliced ::
  "upstream \<Rightarrow> json \<Rightarrow> int \<Rightarrow> int \<Rightarrow> request list \<Rightarrow> (error + json list \<times> request list) option"
where
  "get_sessions_time_sliced api segment_id total_start_time now log =
     while_windows (window_query api segment_id) (minutes 30) total_start_time
       now (now - minutes 30) ([], log)"

subsection \<open>get-agni-clients-by-segment.py\<close>

text \<open>
  \<^verbatim>\<open>
  try:
      resp = session.post(url, json=payload, timeout=60)
      resp.raise_for_status()
      body = resp.json()
      data = body.get("data", {})
      records = data.get("records", [])
      if records:
          all_sessions.extend(records)
  except requests.exceptions.RequestException as e:
      print(f"  ! API request failed for window {current_from}: {e}")
      # We continue to the next window instead of breaking completely
  \<close>
  \<^verbatim>\<open>raise_for_status\<close> raises for the status codes 400 to 599. Only a
  \<^verbatim>\<open>RequestException\<close> is caught here: an \<^verbatim>\<open>AttributeError\<close> or
  \<^verbatim>\<open>TypeError\<close> from a body of the wrong shape leaves the function.
\<close>

definition raise_for_status :: "int \<Rightarrow> bool" where
  "raise_for_status status = (400 \<le> status \<and> status < 600)"

fun segment_window_contribution :: "response \<Rightarrow> error + json list" where
  "segment_window_contribution Failed = Inr []"
| "segment_window_contribution (Reply status None) = Inr []"
| "segment_window_contribution (Reply status (Some body)) =
     (if raise_for_status status then Inr [] else window_records body)"

definition segment_window_query ::
  "upstream \<Rightarrow> json \<Rightarrow> int \<Rightarrow> int \<Rightarrow> json list \<times> request list \<Rightarrow> (json list \<times> request list) step"
where
  "segment_window_query api segment_id current_from current_to st =
     (case st of (all_sessions, log) \<Rightarrow>
        (case post api (SegmentSessions segment_id current_from current_to) log of
           (resp, log') \<Rightarrow>
             (case segment_window_contribution resp of
                Inl e \<Rightarrow> Raise e
              | Inr recs \<Rightarrow> Continue (all_sessions @ recs, log'))))"

definition segment_get_sessions_time_sliced ::
  "upstream \<Rightarrow> int \<Rightarrow> json \<Rightarrow> int \<Rightarrow> int \<Rightarrow> request list
     \<Rightarrow> (error + json list \<times> request list) option"
where
  "segment_get_sessions_time_sliced api WINDOW_MINUTES segment_id total_start_time now log =
     while_windows (segment_window_query api segment_id) (minutes WINDOW_MINUTES)
       total_start_time now (now - minutes WINDOW_MINUTES) ([], log)"

subsection \<open>get-agni-sessions.py\<close>

text \<open>
  \<^verbatim>\<open>
  try:
      resp = session.post(API_URL, json=payload, timeout=TIMEOUT)
      resp.raise_for_status()
      body = resp.json()
  except requests.exceptions.RequestException as e:
      print(f"API request failed: {e}", file=sys.stderr)
      break
  if "error" in body and body["error"]:
      print(f"API returned error: {body['error']}", file=sys.stderr)
      break
  data = body.get("data", {})
  records = data.get("records", [])
  if not records:
      print("No records returned for this time window.")
  else:
      all_records.extend(records)
  \<close>
  \<^verbatim>\<open>"error" in body\<close> is a key test on a dictionary, an element test on a list, a
  substring test on a string, and a \<^verbatim>\<open>TypeError\<close> on anything else;
  \<^verbatim>\<open>body["error"]\<close> is a \<^verbatim>\<open>TypeError\<close> on a list and on a string.
\<close>

fun body_error :: "json \<Rightarrow> error + bool" where
  "body_error (JObj d) = Inr (case map_of d ''error'' of None \<Rightarrow> False | Some v \<Rightarrow> truthy v)"
| "body_error (JList xs) = (if JStr ''error'' \<in> set xs then Inl TypeError else Inr False)"
| "body_error (JStr s) = (if sublist ''error'' s then Inl TypeError else Inr False)"
| "body_error v = Inl TypeError"

definition sessions_window_query ::
  "upstream \<Rightarrow> int \<Rightarrow> int \<Rightarrow> json list \<times> request list \<Rightarrow> (json list \<times> request list) step"
where
  "sessions_window_query api current_from current_to st =
     (case st of (all_records, log) \<Rightarrow>
        (case post api (FailedSessions current_from current_to) log of
           (Failed, log') \<Rightarrow> Break (all_records, log')
         | (Reply status None, log') \<Rightarrow> Break (all_records, log')
         | (Reply status (Some body), log') \<Rightarrow>
             if raise_for_status status then Break (all_records, log')
             else
               (case body_error body of
                  Inl e \<Rightarrow> Raise e
                | Inr True \<Rightarrow> Break (all_records, log')
                | Inr False \<Rightarrow>
                    (case window_records body of
                       Inl e \<Rightarrow> Raise e
                     | Inr recs \<Rightarrow> Continue (all_records @ recs, log')))))"

definition sessions_window_loop ::
  "upstream \<Rightarrow> int \<Rightarrow> int \<Rightarrow> int \<Rightarrow> request list \<Rightarrow> (error + json list \<times> request list) option"
where
  "sessions_window_loop api WINDOW_MINUTES START_DATE now log =
     while_windows (sessions_window_query api) (minutes WINDOW_MINUTES)
       START_DATE now (now - minutes WINDOW_MINUTES) ([], log)"

subsection \<open>The windows of a run\<close>

text \<open>The first \<open>n\<close> windows back from \<open>t\<close>, as pairs (from, to), and a loop over a
  given list of windows: what the while loop does when its guard admits exactly these.\<close>

fun windows_back :: "int \<Rightarrow> int \<Rightarrow> nat \<Rightarrow> (int \<times> int) list" where
  "windows_back t width 0 = []"
| "windows_back t width (Suc n) = (t - width, t) # windows_back (t - width) width n"

fun run_windows :: "(int \<Rightarrow> int \<Rightarrow> 's \<Rightarrow> 's step) \<Rightarrow> (int \<times> int) list \<Rightarrow> 's \<Rightarrow> error + 's" where
  "run_windows body [] st = Inr st"
| "run_windows body ((current_from, current_to) # ws) st =
     (case body current_from current_to st of
        Continue st' \<Rightarrow> run_windows body ws st'
      | Break st' \<Rightarrow> Inr st'
      | Raise e \<Rightarrow> Inl e)"

text \<open>The windows a request log asked for, and the instants a list of windows covers
  (a window is half-open).\<close>

fun window_of :: "request \<Rightarrow> (int \<times> int) list" where
  "window_of (FailedSessions f t) = [(f, t)]"
| "window_of (SegmentSessions seg f t) = [(f, t)]"
| "window_of req = []"

definition windows_of :: "request list \<Rightarrow> (int \<times> int) list" where
  "windows_of log = concat (map window_of log)"

definition covered :: "(int \<times> int) list \<Rightarrow> int \<Rightarrow> bool" where
  "covered ws x = list_ex (\<lambda>w. fst w \<le> x \<and> x < snd w) ws"

text \<open>The responses the upstream gives to a list of requests posted one after another,
  the first of them after \<open>k\<close> earlier requests.\<close>

fun responses :: "upstream \<Rightarrow> request list \<Rightarrow> nat \<Rightarrow> response list" where
  "responses api [] k = []"
| "responses api (req # reqs) k = api req k # responses api reqs (Suc k)"

definition segment_request :: "json \<Rightarrow> int \<times> int \<Rightarrow> request" where
  "segment_request segment_id w = SegmentSessions segment_id (fst w) (snd w)"


text \<open>Example inputs: an instant, a segment id, and three upstreams.\<close>

definition now0 :: int where
  "now0 = 1762300800000000"

definition seg0 :: json where
  "seg0 = JStr ''seg-1''"

definition records_body :: "json list \<Rightarrow> json" where
  "records_body recs = JObj [(''data'', JObj [(''records'', JList recs)])]"

definition quiet_api :: upstream where
  "quiet_api req n = Reply 200 (Some (records_body []))"

definition down_api :: upstream where
  "down_api req n = Failed"

definition flaky_api :: upstream where
  "flaky_api req n =
     (if n = 0 then Reply 200 (Some (records_body [sess_new]))
      else if n = 1 then Failed
      else Reply 200 (Some (records_body [sess_old])))"


section \<open>Secondary Lookup Client and Lookup Cache (test-client.py)\<close>

text \<open>
  \<^verbatim>\<open>
  def get_nad_name(session, nad_id):
      if not nad_id: return "Unknown"
      with nad_cache_lock:
          if nad_id in nad_cache:
              return nad_cache[nad_id]
      try:
          resp = session.post(url, json={"id": nad_id, "orgID": ORG_ID}, timeout=20)
          if resp.status_code == 200:
              name = resp.json().get("data", {}).get("name", "Unknown")
              with nad_cache_lock:
                  nad_cache[nad_id] = name
              return name
      except Exception:
          pass
      return "Unknown"
  \<close>
  The cache test is outside the \<^verbatim>\<open>try\<close>: an unhashable \<^verbatim>\<open>nad_id\<close> raises
  \<^verbatim>\<open>TypeError\<close> there. The calls are modelled one after another; the state is the
  cache together with the log of requests.
\<close>

type_synonym lookup_state = "(json \<times> json) list \<times> request list"

definition nad_name_of_body :: "json \<Rightarrow> error + json" where
  "nad_name_of_body body =
     (case json_get body ''data'' (JObj []) of
        Inl e \<Rightarrow> Inl e
      | Inr data \<Rightarrow> json_get data ''name'' (JStr ''Unknown''))"

text \<open>The name a response yields: \<open>None\<close> when the status is not 200 or the
  \<^verbatim>\<open>try\<close> block raised.\<close>

fun fetch_nad_name :: "response \<Rightarrow> json option" where
  "fetch_nad_name Failed = None"
| "fetch_nad_name (Reply status None) = None"
| "fetch_nad_name (Reply status (Some body)) =
     (if status = 200 then
        (case nad_name_of_body body of Inl e \<Rightarrow> None | Inr name \<Rightarrow> Some name)
      else None)"

definition get_nad_name :: "upstream \<Rightarrow> json \<Rightarrow> lookup_state \<Rightarrow> error + json \<times> lookup_state" where
  "get_nad_name api nad_id st =
     (case st of (nad_cache, log) \<Rightarrow>
        if \<not> truthy nad_id then Inr (JStr ''Unknown'', (nad_cache, log))
        else if \<not> hashable nad_id then Inl TypeError
        else
          (case vdict_lookup nad_cache nad_id of
             Some name \<Rightarrow> Inr (name, (nad_cache, log))
           | None \<Rightarrow>
               (case post api (NadGet nad_id) log of
                  (resp, log') \<Rightarrow>
                    (case fetch_nad_name resp of
                       Some name \<Rightarrow> Inr (name, (vdict_set nad_cache nad_id name, log'))
                     | None \<Rightarrow> Inr (JStr ''Unknown'', (nad_cache, log'))))))"

text \<open>
  \<^verbatim>\<open>
  def get_session_details(session, auth_req_id):
      if not auth_req_id: return ""
      try:
          resp = session.post(url, json={"authReqID": auth_req_id, "orgID": ORG_ID}, timeout=20)
          if resp.status_code == 200:
              data = resp.json().get("data", {})
              input_attrs = data.get("inputAttrs", {})
              return input_attrs.get("Radius:IETF:NAS-Port-Id", "")
      except Exception:
          pass
      return ""
  \<close>
\<close>

definition port_id_of_body :: "json \<Rightarrow> error + json" where
  "port_id_of_body body =
     (case json_get body ''data'' (JObj []) of
        Inl e \<Rightarrow> Inl e
      | Inr data \<Rightarrow>
          (case json_get data ''inputAttrs'' (JObj []) of
             Inl e \<Rightarrow> Inl e
           | Inr input_attrs \<Rightarrow> json_get input_attrs ''Radius:IETF:NAS-Port-Id'' (JStr [])))"

fun session_details_value :: "response \<Rightarrow> json" where
  "session_details_value Failed = JStr []"
| "session_details_value (Reply status None) = JStr []"
| "session_details_value (Reply status (Some body)) =
     (if status = 200 then
        (case port_id_of_body body of Inl e \<Rightarrow> JStr [] | Inr v \<Rightarrow> v)
      else JStr [])"

definition get_session_details :: "upstream \<Rightarrow> json \<Rightarrow> request list \<Rightarrow> json \<times> request list" where
  "get_session_details api auth_req_id log =
     (if \<not> truthy auth_req_id then (JStr [], log)
      else
        (case post api (SessionDetailsGet auth_req_id) log of
           (resp, log') \<Rightarrow> (session_details_value resp, log')))"

text \<open>
  \<^verbatim>\<open>
  def get_client_info(session, mac):
      try:
          resp = session.post(url, json={"mac": mac, "orgID": ORG_ID}, timeout=20)
          if resp.status_code == 200:
              return resp.json().get("data", {})
      except Exception:
          pass
      return {}
  \<close>
  \<^verbatim>\<open>get_client_details\<close> of get-agni-clients-by-segment.py is the same function.
\<close>

fun client_data_value :: "response \<Rightarrow> json" where
  "client_data_value Failed = JObj []"
| "client_data_value (Reply status None) = JObj []"
| "client_data_value (Reply status (Some body)) =
     (if status = 200 then
        (case json_get body ''data'' (JObj []) of Inl e \<Rightarrow> JObj [] | Inr data \<Rightarrow> data)
      else JObj [])"

definition get_client_info :: "upstream \<Rightarrow> json \<Rightarrow> request list \<Rightarrow> json \<times> request list" where
  "get_client_info api mac log =
     (case post api (ClientGet mac) log of (resp, log') \<Rightarrow> (client_data_value resp, log'))"

definition get_client_details :: "upstream \<Rightarrow> json \<Rightarrow> request list \<Rightarrow> json \<times> request list" where
  "get_client_details api mac log =
     (case post api (ClientGet mac) log of (resp, log') \<Rightarrow> (client_data_value resp, log'))"

section \<open>Enrichment Merger\<close>

text \<open>
  \<^verbatim>\<open>
  client_attrs = client_data.pop("attributes", {})
  if client_attrs:
      for k, v in client_attrs.items():
          combined_rec[f"client_attr_{k}"] = v
  cert_info = client_data.pop("certificate", None)
  if cert_info and isinstance(cert_info, dict):
      combined_rec["cert_subject"] = cert_info.get("subject")
      combined_rec["cert_expiry"] = cert_info.get("expiryDate")
  for k, v in client_data.items():
      if k not in combined_rec:
          combined_rec[k] = v
      else:
          combined_rec[f"client_{k}"] = v
  \<close>
  The two scripts differ in the certificate field they keep (\<^verbatim>\<open>cert_subject\<close> from
  \<^verbatim>\<open>subject\<close> in test-client.py, \<^verbatim>\<open>cert_issuer\<close> from \<^verbatim>\<open>issuer\<close> in
  get-agni-clients-by-segment.py). \<^verbatim>\<open>combined_rec[k] = v\<close> is \<open>AList.update\<close>.
  A truthy \<^verbatim>\<open>client_data\<close> that is no dictionary has no usable \<^verbatim>\<open>pop\<close>
  (\<^verbatim>\<open>TypeError\<close> for a list, whose \<^verbatim>\<open>pop\<close> takes one argument,
  \<^verbatim>\<open>AttributeError\<close> otherwise), and truthy attributes that are no dictionary have
  no \<^verbatim>\<open>items\<close>.
\<close>

definition flatten_attributes :: "sdict \<Rightarrow> json \<Rightarrow> error + sdict" where
  "flatten_attributes combined_rec client_attrs =
     (if \<not> truthy client_attrs then Inr combined_rec
      else
        (case client_attrs of
           JObj kvs \<Rightarrow>
             Inr (fold (\<lambda>kv rec. AList.update (''client_attr_'' @ fst kv) (snd kv) rec)
                    kvs combined_rec)
         | _ \<Rightarrow> Inl AttributeError))"

definition flatten_certificate :: "string \<Rightarrow> string \<Rightarrow> sdict \<Rightarrow> json \<Rightarrow> sdict" where
  "flatten_certificate cert_key cert_field combined_rec cert_info =
     (case cert_info of
        JObj d \<Rightarrow>
          if d \<noteq> [] then
            AList.update ''cert_expiry'' (dict_get d ''expiryDate'')
              (AList.update cert_key (dict_get d cert_field) combined_rec)
          else combined_rec
      | _ \<Rightarrow> combined_rec)"

definition merge_field :: "string \<times> json \<Rightarrow> sdict \<Rightarrow> sdict" where
  "merge_field kv combined_rec =
     (if fst kv \<notin> set (map fst combined_rec)
      then AList.update (fst kv) (snd kv) combined_rec
      else AList.update (''client_'' @ fst kv) (snd kv) combined_rec)"

definition merge_remaining :: "sdict \<Rightarrow> sdict \<Rightarrow> sdict" where
  "merge_remaining combined_rec client_data = fold merge_field client_data combined_rec"

definition merge_client_data :: "string \<Rightarrow> string \<Rightarrow> sdict \<Rightarrow> json \<Rightarrow> error + sdict" where
  "merge_client_data cert_key cert_field combined_rec client_data =
     (case client_data of
        JObj cd \<Rightarrow>
          (case flatten_attributes combined_rec (dict_get_default cd ''attributes'' (JObj [])) of
             Inl e \<Rightarrow> Inl e
           | Inr rec1 \<Rightarrow>
               (let cd1 = AList.delete ''attributes'' cd;
                    cert_info = dict_get cd1 ''certificate'';
                    cd2 = AList.delete ''certificate'' cd1;
                    rec2 = flatten_certificate cert_key cert_field rec1 cert_info
                in Inr (merge_remaining rec2 cd2)))
      | JList xs \<Rightarrow> Inl TypeError
      | _ \<Rightarrow> Inl AttributeError)"

text \<open>
  \<^verbatim>\<open>
  def enrich_device_worker(args):
      mac, sess_data, auth_session = args
      combined_rec = sess_data.copy()
      nad_id = sess_data.get("nadID")
      if nad_id:
          combined_rec["switch_name"] = get_nad_name(auth_session, nad_id)
      auth_req_id = sess_data.get("authReqID")
      if auth_req_id:
          combined_rec["switch_interface"] = get_session_details(auth_session, auth_req_id)
      client_data = get_client_info(auth_session, mac)
      if client_data:
          ... flatten and merge ...
      return combined_rec
  \<close>
\<close>

definition switch_name_step :: "upstream \<Rightarrow> sdict \<Rightarrow> lookup_state \<Rightarrow> error + sdict \<times> lookup_state" where
  "switch_name_step api sess_data st =
     (let nad_id = dict_get sess_data ''nadID'' in
      if truthy nad_id then
        (case get_nad_name api nad_id st of
           Inl e \<Rightarrow> Inl e
         | Inr (name, st') \<Rightarrow> Inr (AList.update ''switch_name'' name sess_data, st'))
      else Inr (sess_data, st))"

definition switch_interface_step :: "upstream \<Rightarrow> sdict \<Rightarrow> sdict \<Rightarrow> request list \<Rightarrow> sdict \<times> request list" where
  "switch_interface_step api sess_data combined_rec log =
     (let auth_req_id = dict_get sess_data ''authReqID'' in
      if truthy auth_req_id then
        (case get_session_details api auth_req_id log of
           (port, log') \<Rightarrow> (AList.update ''switch_interface'' port combined_rec, log'))
      else (combined_rec, log))"

definition enrich_device_worker ::
  "upstream \<Rightarrow> json \<times> sdict \<Rightarrow> lookup_state \<Rightarrow> error + sdict \<times> lookup_state"
where
  "enrich_device_worker api args st =
     (case args of (mac, sess_data) \<Rightarrow>
        (case switch_name_step api sess_data st of
           Inl e \<Rightarrow> Inl e
         | Inr (rec1, (nad_cache, log1)) \<Rightarrow>
             (case switch_interface_step api sess_data rec1 log1 of
                (rec2, log2) \<Rightarrow>
                  (case get_client_info api mac log2 of
                     (client_data, log3) \<Rightarrow>
                       if truthy client_data then
                         (case merge_client_data ''cert_subject'' ''subject'' rec2 client_data of
                            Inl e \<Rightarrow> Inl e
                          | Inr rec3 \<Rightarrow> Inr (rec3, (nad_cache, log3)))
                       else Inr (rec2, (nad_cache, log3))))))"

text \<open>
  \<^verbatim>\<open>
  if ENABLE_ENRICHMENT and unique_devices:
      work_items = [(k, v, main_session) for k, v in unique_devices.items()]
      with concurrent.futures.ThreadPoolExecutor(max_workers=MAX_THREADS) as executor:
          results = list(executor.map(enrich_device_worker, work_items))
          final_records = results
  else:
      final_records = list(unique_devices.values())
  \<close>
  \<^verbatim>\<open>executor.map\<close> yields the results in the order of its inputs and re-raises a
  worker's exception when its result is reached. The workers are run here one after
  another in that order; their interleaving is not modelled.
\<close>

fun executor_map ::
  "('a \<Rightarrow> 's \<Rightarrow> error + 'b \<times> 's) \<Rightarrow> 'a list \<Rightarrow> 's \<Rightarrow> error + 'b list \<times> 's"
where
  "executor_map worker [] st = Inr ([], st)"
| "executor_map worker (item # items) st =
     (case worker item st of
        Inl e \<Rightarrow> Inl e
      | Inr (res, st') \<Rightarrow>
          (case executor_map worker items st' of
             Inl e \<Rightarrow> Inl e
           | Inr (results, st'') \<Rightarrow> Inr (res # results, st'')))"

definition final_records ::
  "upstream \<Rightarrow> bool \<Rightarrow> devices \<Rightarrow> lookup_state \<Rightarrow> error + sdict list \<times> lookup_state"
where
  "final_records api ENABLE_ENRICHMENT unique_devs st =
     (if ENABLE_ENRICHMENT \<and> unique_devs \<noteq> []
      then executor_map (enrich_device_worker api) unique_devs st
      else Inr (map snd unique_devs, st))"

text \<open>
  get-agni-clients-by-segment.py enriches in a plain loop:
  \<^verbatim>\<open>
  if unique_devices and ENABLE_ENRICHMENT:
      for mac, sess_data in unique_devices.items():
          combined_rec = sess_data.copy()
          client_data = get_client_details(session, mac)
          if client_data:
              ... flatten and merge ...
          final_records.append(combined_rec)
  else:
      final_records = list(unique_devices.values())
  \<close>
\<close>

definition segment_enrich_device ::
  "upstream \<Rightarrow> json \<times> sdict \<Rightarrow> request list \<Rightarrow> error + sdict \<times> request list"
where
  "segment_enrich_device api item log =
     (case item of (mac, sess_data) \<Rightarrow>
        (case get_client_details api mac log of
           (client_data, log') \<Rightarrow>
             if truthy client_data then
               (case merge_client_data ''cert_issuer'' ''issuer'' sess_data client_data of
                  Inl e \<Rightarrow> Inl e
                | Inr combined_rec \<Rightarrow> Inr (combined_rec, log'))
             else Inr (sess_data, log')))"

definition segment_final_records ::
  "upstream \<Rightarrow> bool \<Rightarrow> devices \<Rightarrow> request list \<Rightarrow> error + sdict list \<times> request list"
where
  "segment_final_records api ENABLE_ENRICHMENT unique_devs log =
     (if unique_devs \<noteq> [] \<and> ENABLE_ENRICHMENT
      then executor_map (segment_enrich_device api) unique_devs log
      else Inr (map snd unique_devs, log))"

text \<open>Example inputs: a device record, and an upstream that answers every lookup.\<close>

definition dev1 :: sdict where
  "dev1 = [(''mac'', JStr ''AA:BB:CC:DD:EE:FF''), (''nadID'', JStr ''nad-1''),
           (''authReqID'', JStr ''req-123''), (''switch_name'', JStr ''edge-1''), (''ip'', JStr ''10.0.0.2'')]"

definition full_api :: upstream where
  "full_api req n =
     (case req of
        NadGet i \<Rightarrow> Reply 200 (Some (JObj [(''data'', JObj [(''name'', JStr ''sw-1'')])]))
      | SessionDetailsGet i \<Rightarrow>
          Reply 200 (Some (JObj [(''data'', JObj [(''inputAttrs'',
             JObj [(''Radius:IETF:NAS-Port-Id'', JStr ''Ethernet7'')])])]))
      | ClientGet m \<Rightarrow>
          Reply 200 (Some (JObj [(''data'', JObj [(''mac'', m), (''description'', JStr ''laptop''),
             (''attributes'', JObj [(''os'', JStr ''linux'')]),
             (''certificate'', JObj [(''subject'', JStr ''CN=x''), (''expiryDate'', JStr ''2027-01-01'')])])]))
      | _ \<Rightarrow> Failed)"

text \<open>A series of calls of \<^verbatim>\<open>get_nad_name\<close>, one after another, as the workers
  make them; a call that raises leaves the cache and the log as they were.\<close>

fun nad_calls :: "upstream \<Rightarrow> json list \<Rightarrow> lookup_state \<Rightarrow> lookup_state" where
  "nad_calls api [] st = st"
| "nad_calls api (nad_id # ids) st =
     (case get_nad_name api nad_id st of
        Inl e \<Rightarrow> nad_calls api ids st
      | Inr (name, st') \<Rightarrow> nad_calls api ids st')"

definition nad_body :: "string \<Rightarrow> json" where
  "nad_body name = JObj [(''data'', JObj [(''name'', JStr name)])]"

definition nad_api :: upstream where
  "nad_api req n = (if n = 0 then Failed else Reply 200 (Some (nad_body ''sw-1'')))"

definition nad1 :: json where
  "nad1 = JStr ''nad-1''"

definition mac1 :: json where
  "mac1 = JStr ''AA:BB:CC:DD:EE:FF''"

definition dev1_enriched :: sdict where
  "dev1_enriched =
     [(''mac'', JStr ''AA:BB:CC:DD:EE:FF''), (''nadID'', JStr ''nad-1''),
      (''authReqID'', JStr ''req-123''), (''switch_name'', JStr ''sw-1''),
      (''ip'', JStr ''10.0.0.2''), (''switch_interface'', JStr ''Ethernet7''),
      (''client_attr_os'', JStr ''linux''), (''cert_subject'', JStr ''CN=x''),
      (''cert_expiry'', JStr ''2027-01-01''), (''client_mac'', JStr ''AA:BB:CC:DD:EE:FF''),
      (''description'', JStr ''laptop'')]"

definition dev1_segment_enriched :: sdict where
  "dev1_segment_enriched =
     [(''mac'', JStr ''AA:BB:CC:DD:EE:FF''), (''nadID'', JStr ''nad-1''),
      (''authReqID'', JStr ''req-123''), (''switch_name'', JStr ''edge-1''),
      (''ip'', JStr ''10.0.0.2''), (''client_attr_os'', JStr ''linux''),
      (''cert_issuer'', JNull), (''cert_expiry'', JStr ''2027-01-01''),
      (''client_mac'', JStr ''AA:BB:CC:DD:EE:FF''), (''description'', JStr ''laptop'')]"

definition mac2 :: json where
  "mac2 = JStr ''11:22:33:44:55:66''"

definition dev2 :: sdict where
  "dev2 = [(''mac'', JStr ''11:22:33:44:55:66''), (''nadID'', JStr ''nad-1'')]"

definition dev2_enriched :: sdict where
  "dev2_enriched =
     [(''mac'', JStr ''11:22:33:44:55:66''), (''nadID'', JStr ''nad-1''),
      (''switch_name'', JStr ''sw-1''), (''client_attr_os'', JStr ''linux''),
      (''cert_subject'', JStr ''CN=x''), (''cert_expiry'', JStr ''2027-01-01''),
      (''client_mac'', JStr ''11:22:33:44:55:66''), (''description'', JStr ''laptop'')]"

definition dev2_segment_enriched :: sdict where
  "dev2_segment_enriched =
     [(''mac'', JStr ''11:22:33:44:55:66''), (''nadID'', JStr ''nad-1''),
      (''client_attr_os'', JStr ''linux''), (''cert_issuer'', JNull),
      (''cert_expiry'', JStr ''2027-01-01''),
      (''client_mac'', JStr ''11:22:33:44:55:66''), (''description'', JStr ''laptop'')]"

text \<open>A lookup that failed: the connection failed, the status is not 200, or the body is
  not JSON.\<close>

fun lookup_failed :: "response \<Rightarrow> bool" where
  "lookup_failed Failed = True"
| "lookup_failed (Reply status None) = True"
| "lookup_failed (Reply status (Some body)) = (status \<noteq> 200)"

definition dev2_unknown :: sdict where
  "dev2_unknown =
     [(''mac'', JStr ''11:22:33:44:55:66''), (''nadID'', JStr ''nad-1''),
      (''switch_name'', JStr ''Unknown'')]"

definition dev1_unknown :: sdict where
  "dev1_unknown =
     [(''mac'', JStr ''AA:BB:CC:DD:EE:FF''), (''nadID'', JStr ''nad-1''),
      (''authReqID'', JStr ''req-123''), (''switch_name'', JStr ''Unknown''),
      (''ip'', JStr ''10.0.0.2''), (''switch_interface'', JStr [])]"

text \<open>The request of get-agni-sessions.py for a window, and a reply that lets its loop go
  on: no exception from the request, no error reported in the body, records that can
  be read.\<close>

definition failed_request :: "int \<times> int \<Rightarrow> request" where
  "failed_request w = FailedSessions (fst w) (snd w)"

fun sessions_query_ok :: "response \<Rightarrow> bool" where
  "sessions_query_ok Failed = False"
| "sessions_query_ok (Reply status None) = False"
| "sessions_query_ok (Reply status (Some body)) =
     (\<not> raise_for_status status \<and> body_error body = Inr False \<and> \<not> isl (window_records body))"

text \<open>An upstream whose first reply has status 200 and an error body without data, and
  whose later replies carry a name.\<close>

definition error_api :: upstream where
  "error_api req n =
     (if n = 0 then Reply 200 (Some (JObj [(''error'', JStr ''rate limited'')]))
      else Reply 200 (Some (nad_body ''sw-1'')))"

text \<open>Client data that the merge reads without raising: falsy data (the merge is
  skipped), or a dictionary whose \<^verbatim>\<open>attributes\<close> are absent, falsy or a
  dictionary.\<close>

definition mergeable :: "json \<Rightarrow> bool" where
  "mergeable client_data =
     (case client_data of
        JObj cd \<Rightarrow>
          (case dict_get_default cd ''attributes'' (JObj []) of
             JObj kvs \<Rightarrow> True
           | a \<Rightarrow> \<not> truthy a)
      | v \<Rightarrow> \<not> truthy v)"

text \<open>An upstream whose switch and interface lookups fail while the identity lookup
  answers, a device whose \<^verbatim>\<open>nadID\<close> is a list, and the record of the first device
  enriched by that upstream.\<close>

definition switch_down_api :: upstream where
  "switch_down_api req n =
     (case req of
        ClientGet m \<Rightarrow>
          Reply 200 (Some (JObj [(''data'', JObj [(''mac'', m), (''description'', JStr ''laptop'')])]))
      | _ \<Rightarrow> Failed)"

definition dev_list_nad :: sdict where
  "dev_list_nad = [(''mac'', JStr ''22:22:22:22:22:22''), (''nadID'', JList [JStr ''nad-1''])]"

definition dev1_partial :: sdict where
  "dev1_partial =
     [(''mac'', JStr ''AA:BB:CC:DD:EE:FF''), (''nadID'', JStr ''nad-1''),
      (''authReqID'', JStr ''req-123''), (''switch_name'', JStr ''Unknown''),
      (''ip'', JStr ''10.0.0.2''), (''switch_interface'', JStr []),
      (''client_mac'', JStr ''AA:BB:CC:DD:EE:FF''), (''description'', JStr ''laptop'')]"

section \<open>Properties\<close>

subsection \<open>Deduplicator\<close>

lemma key_eq_refl: "key_eq k k"
  by (simp add: key_eq_def)

lemma vdict_lookup_set:
  "vdict_lookup (vdict_set d k v) k' = (if key_eq k k' then Some v else vdict_lookup d k')"
  by (induction d) (auto simp: key_eq_def)

lemma dedup_loop_append:
  "dedup_loop ud (xs @ ys) =
     (case dedup_loop ud xs of Inl e \<Rightarrow> Inl e | Inr ud' \<Rightarrow> dedup_loop ud' ys)"
  by (induction xs arbitrary: ud) (auto split: sum.splits)






text \<open>
  C1. The claim is that a later record with a key that is already stored leaves the
  stored representative unchanged, so that the first-seen record (the most recent
  observation under the backward traversal) is kept. The paginator returns the newer
  session of a device (from the window nearest to now) before the older one. The loop assigns
  \<^verbatim>\<open>unique_devices[mac] = sess\<close> on every occurrence: after the newer session alone
  the map holds the newer session, and processing the older session of the same device
  after it replaces the representative by the older one.
\<close>

theorem dedup_overwrites_first_seen:
  "get_sessions_time_sliced flaky_api seg0 (now0 - minutes 95) now0 []
     = Some (Inr ([sess_new, sess_old],
                  [SegmentSessions seg0 (now0 - minutes 30) now0,
                   SegmentSessions seg0 (now0 - minutes 60) (now0 - minutes 30),
                   SegmentSessions seg0 (now0 - minutes 90) (now0 - minutes 60)]))
   \<and> unique_devices [sess_new] = Inr [(JStr ''AA:BB:CC:DD:EE:FF'', fields_of sess_new)]
   \<and> unique_devices [sess_new, sess_old] = Inr [(JStr ''AA:BB:CC:DD:EE:FF'', fields_of sess_old)]
   \<and> fields_of sess_old \<noteq> fields_of sess_new"
proof -
  have p: "get_sessions_time_sliced flaky_api seg0 (now0 - minutes 95) now0 []
     = Some (Inr ([sess_new, sess_old],
                  [SegmentSessions seg0 (now0 - minutes 30) now0,
                   SegmentSessions seg0 (now0 - minutes 60) (now0 - minutes 30),
                   SegmentSessions seg0 (now0 - minutes 90) (now0 - minutes 60)]))"
    by (simp add: get_sessions_time_sliced_def while_windows.simps minutes_def now0_def
        window_query_def post_def flaky_api_def records_body_def window_records_def
        dict_get_default_def)
  have d: "unique_devices [sess_new] = Inr [(JStr ''AA:BB:CC:DD:EE:FF'', fields_of sess_new)]
   \<and> unique_devices [sess_new, sess_old] = Inr [(JStr ''AA:BB:CC:DD:EE:FF'', fields_of sess_old)]
   \<and> fields_of sess_old \<noteq> fields_of sess_new"
    by (simp add: unique_devices_def sess_new_def sess_old_def dict_get_def key_eq_def Let_def)
  from p d show ?thesis by (rule conjI)
qed

text \<open>
  C9. A raw record whose \<^verbatim>\<open>mac\<close> field is present but falsy is skipped: the
  Deduplicator gives the same result as without the record, and the same result as
  with the record stripped of its \<^verbatim>\<open>mac\<close> field.
\<close>

theorem falsy_mac_excluded:
  assumes "map_of sess ''mac'' = Some v" and "\<not> truthy v"
  shows "unique_devices (xs @ JObj sess # ys) = unique_devices (xs @ ys)
       \<and> unique_devices (xs @ JObj sess # ys)
           = unique_devices (xs @ JObj (AList.delete ''mac'' sess) # ys)"
proof -
  have s1: "dedup_step ud (JObj sess) = Inr ud" for ud
    using assms by (simp add: dict_get_def)
  have s2: "dedup_step ud (JObj (AList.delete ''mac'' sess)) = Inr ud" for ud
    by (simp add: dict_get_def delete_conv)
  show ?thesis
    by (simp add: unique_devices_def dedup_loop_append s1 s2 del: dedup_step.simps split: sum.splits)
qed

theorem falsy_mac_excluded_witness:
  "map_of (fields_of sess_blank) ''mac'' = Some (JStr []) \<and> \<not> truthy (JStr [])
   \<and> unique_devices ([sess_new] @ JObj (fields_of sess_blank) # [sess_old])
       = unique_devices ([sess_new] @ [sess_old])
   \<and> unique_devices ([sess_new] @ JObj (fields_of sess_blank) # [sess_old])
       = unique_devices ([sess_new] @ JObj (AList.delete ''mac'' (fields_of sess_blank)) # [sess_old])"
proof -
  have h1: "map_of (fields_of sess_blank) ''mac'' = Some (JStr [])"
    by (simp add: sess_blank_def)
  have h2: "\<not> truthy (JStr [])" by simp
  from falsy_mac_excluded[OF h1 h2, of "[sess_new]" "[sess_old]"] h1 h2
  show ?thesis by blast
qed

subsection \<open>Export Projector\<close>

lemma remove1_filter_distinct:
  "distinct ks \<Longrightarrow> remove1 c (filter P ks) = filter (\<lambda>x. P x \<and> c \<noteq> x) ks"
  by (simp add: distinct_remove1_removeAll removeAll_filter_not_eq)

lemma priority_lists_distinct: "distinct priority \<and> distinct priority_cols"
  by (simp add: priority_def priority_cols_def)

lemma foldr_move_to_front:
  "distinct ks \<Longrightarrow> distinct p \<Longrightarrow>
     foldr move_to_front p ks = filter (\<lambda>c. c \<in> set ks) p @ filter (\<lambda>c. c \<notin> set p) ks"
proof (induction p)
  case Nil
  then show ?case by simp
next
  case (Cons c p)
  let ?A = "filter (\<lambda>c. c \<in> set ks) p"
  let ?B = "filter (\<lambda>x. x \<notin> set p) ks"
  have ih: "foldr move_to_front p ks = ?A @ ?B" using Cons by simp
  have cA: "c \<notin> set ?A" using Cons.prems by auto
  have B': "filter (\<lambda>x. x \<notin> set (c # p)) ks = filter (\<lambda>x. x \<notin> set p \<and> c \<noteq> x) ks"
    by (rule filter_cong) auto
  show ?case
  proof (cases "c \<in> set ks")
    case True
    then have mem: "c \<in> set (?A @ ?B)" using Cons.prems by auto
    have "remove1 c (?A @ ?B) = ?A @ remove1 c ?B"
      using cA by (simp only: remove1_append if_False)
    also have "\<dots> = ?A @ filter (\<lambda>x. x \<notin> set (c # p)) ks"
      using remove1_filter_distinct[OF Cons.prems(1), of c "\<lambda>x. x \<notin> set p"] B' by simp
    finally have "move_to_front c (?A @ ?B) = c # ?A @ filter (\<lambda>x. x \<notin> set (c # p)) ks"
      using mem by (simp only: move_to_front_def if_True)
    moreover have "filter (\<lambda>c. c \<in> set ks) (c # p) = c # ?A" using True by simp
    ultimately show ?thesis using ih by simp
  next
    case False
    then have "c \<notin> set (?A @ ?B)" by auto
    then have "move_to_front c (?A @ ?B) = ?A @ ?B"
      by (simp only: move_to_front_def if_False)
    moreover have "filter (\<lambda>x. x \<notin> set (c # p)) ks = ?B"
      using False by (intro filter_cong) auto
    moreover have "filter (\<lambda>c. c \<in> set ks) (c # p) = ?A" using False by simp
    ultimately show ?thesis using ih by simp
  qed
qed

text \<open>
  C8. For every list of records, every enumeration of the union of their keys and every
  priority list (without repetitions, as the two configured lists are), the export
  columns are exactly the union of the record keys: first the priority columns that
  occur in the union, in the order of the priority list, then the remaining keys in the
  order of the enumeration. Priority columns absent from the data are skipped.
\<close>

theorem export_priority_columns_first:
  assumes "distinct key_list" and "set key_list = all_keys recs"
    and "distinct prio"
  shows "sorted_keys prio key_list
           = filter (\<lambda>c. c \<in> all_keys recs) prio
             @ filter (\<lambda>c. c \<notin> set prio) key_list
       \<and> set (sorted_keys prio key_list) = all_keys recs
       \<and> distinct (sorted_keys prio key_list)"
proof -
  have eq: "sorted_keys prio key_list
           = filter (\<lambda>c. c \<in> set key_list) prio @ filter (\<lambda>c. c \<notin> set prio) key_list"
    using foldr_move_to_front[OF assms(1) assms(3)]
    by (simp add: sorted_keys_def foldr_conv_fold)
  have s: "set (sorted_keys prio key_list) = set key_list"
    unfolding eq by auto
  have d: "distinct (sorted_keys prio key_list)"
    unfolding eq using assms(1) assms(3) by auto
  from eq s d show ?thesis using assms(2) by simp
qed

theorem export_priority_columns_first_witness:
  "distinct [''D'', ''B''] \<and> set [''D'', ''B''] = all_keys bd_records \<and> distinct abc_priority
   \<and> sorted_keys abc_priority [''D'', ''B''] = [''B'', ''D'']
   \<and> sorted_keys abc_priority [''D'', ''B'']
       = filter (\<lambda>c. c \<in> all_keys bd_records) abc_priority
         @ filter (\<lambda>c. c \<notin> set abc_priority) [''D'', ''B'']"
proof -
  have h1: "distinct [''D'', ''B'']" by simp
  have h2: "set [''D'', ''B''] = all_keys bd_records"
    by (auto simp: all_keys_def bd_records_def)
  have h3: "distinct abc_priority" by (simp add: abc_priority_def)
  have v: "sorted_keys abc_priority [''D'', ''B''] = [''B'', ''D'']"
    by (simp add: sorted_keys_def abc_priority_def move_to_front_def)
  from export_priority_columns_first[OF h1 h2 h3] h1 h2 h3 v show ?thesis by simp
qed

subsection \<open>Window Paginator\<close>

lemma window_guard_div:
  "0 < (w::int) \<Longrightarrow> (start \<le> t - w) = (0 < (t - start) div w)"
  using pos_imp_zdiv_pos_iff[of w "t - start"] by auto

lemma window_count_step:
  assumes "0 < (w::int)"
  shows "(t - w - start) div w = (t - start) div w - 1"
proof -
  have "(t - start) = (t - w - start) + w" by simp
  then have "(t - start) div w = (t - w - start) div w + 1"
    using assms by (metis div_add_self2 less_irrefl)
  then show ?thesis by simp
qed

lemma while_windows_run:
  assumes "0 < width"
  shows "while_windows body width start t (t - width) st
         = Some (run_windows body (windows_back t width (nat ((t - start) div width))) st)"
proof (induction "nat ((t - start) div width)" arbitrary: t st)
  case 0
  then have "\<not> start \<le> t - width"
    using window_guard_div[OF assms, of start t] by simp
  then show ?case
    using 0 by (subst while_windows.simps) simp
next
  case (Suc n)
  then have g: "start \<le> t - width"
    using window_guard_div[OF assms, of start t] by simp
  have n: "n = nat ((t - width - start) div width)"
    using Suc.hyps(2) window_count_step[OF assms, of t start] by simp
  have ws: "windows_back t width (nat ((t - start) div width))
          = (t - width, t) # windows_back (t - width) width (nat ((t - width - start) div width))"
    using Suc.hyps(2) n by (metis windows_back.simps(2))
  show ?case
    using g Suc.hyps(1)[OF n]
    by (subst while_windows.simps) (simp add: ws split: step.splits)
qed


lemma windows_back_eq:
  "windows_back t w n = map (\<lambda>i. (t - (int i + 1) * w, t - int i * w)) [0..<n]"
proof (induction n arbitrary: t)
  case 0
  then show ?case by simp
next
  case (Suc n)
  have "map (\<lambda>i. (t - (int i + 1) * w, t - int i * w)) [0..<Suc n]
      = (t - w, t) # map (\<lambda>i. (t - (int (Suc i) + 1) * w, t - int (Suc i) * w)) [0..<n]"
    by (simp add: upt_conv_Cons map_Suc_upt[symmetric] del: upt_Suc)
  also have "\<dots> = (t - w, t) # map (\<lambda>i. (t - w - (int i + 1) * w, t - w - int i * w)) [0..<n]"
    by (simp add: algebra_simps)
  finally show ?case using Suc.IH[of "t - w"] by simp
qed

lemma covered_windows_back:
  "0 < w \<Longrightarrow> covered (windows_back t w n) x = (t - int n * w \<le> x \<and> x < t)"
proof (induction n arbitrary: t)
  case 0
  then show ?case by (simp add: covered_def)
next
  case (Suc n)
  have "covered (windows_back t w (Suc n)) x
      = ((t - w \<le> x \<and> x < t) \<or> covered (windows_back (t - w) w n) x)"
    by (simp add: covered_def)
  also have "\<dots> = ((t - w \<le> x \<and> x < t) \<or> (t - w - int n * w \<le> x \<and> x < t - w))"
    using Suc.IH[OF Suc.prems] by simp
  also have "\<dots> = (t - int (Suc n) * w \<le> x \<and> x < t)"
  proof -
    define k where "k = int n * w"
    have nn: "0 \<le> k" using Suc.prems by (simp add: k_def)
    have e: "int (Suc n) * w = w + k" by (simp add: k_def algebra_simps)
    show ?thesis
      unfolding e k_def[symmetric] using nn Suc.prems by auto
  qed
  finally show ?case .
qed

lemma run_windows_window_query:
  "run_windows (window_query api seg) ws (all_sessions, log)
     = Inr (all_sessions
              @ concat (map window_contribution
                          (responses api (map (segment_request seg) ws) (length log))),
            log @ map (segment_request seg) ws)"
proof (induction ws arbitrary: all_sessions log)
  case Nil
  then show ?case by simp
next
  case (Cons w ws)
  obtain f t where w: "w = (f, t)" by (cases w)
  have step: "window_query api seg f t (all_sessions, log)
      = Continue (all_sessions @ window_contribution (api (segment_request seg w) (length log)),
                  log @ [segment_request seg w])"
    by (simp add: window_query_def post_def segment_request_def w)
  show ?case
    unfolding w run_windows.simps step
    by (simp add: Cons.IH w[symmetric])
qed

lemma run_windows_segment_log:
  "run_windows (segment_window_query api seg) ws (all_sessions, log) = Inr (recs, log')
     \<Longrightarrow> log' = log @ map (segment_request seg) ws"
proof (induction ws arbitrary: all_sessions log)
  case Nil
  then show ?case by simp
next
  case (Cons w ws)
  obtain f t where w: "w = (f, t)" by (cases w)
  have step: "segment_window_query api seg f t (all_sessions, log)
      = (case segment_window_contribution (api (SegmentSessions seg f t) (length log)) of
           Inl e \<Rightarrow> Raise e
         | Inr rs \<Rightarrow> Continue (all_sessions @ rs, log @ [SegmentSessions seg f t]))"
    by (simp add: segment_window_query_def post_def)
  from Cons.prems obtain rs where
    "run_windows (segment_window_query api seg) ws (all_sessions @ rs, log @ [SegmentSessions seg f t])
       = Inr (recs, log')"
    unfolding w run_windows.simps step
    by (auto split: sum.splits)
  from Cons.IH[OF this] show ?case by (simp add: w segment_request_def)
qed

lemma segment_run_eq:
  assumes "0 < WINDOW_MINUTES"
  shows "segment_get_sessions_time_sliced api WINDOW_MINUTES seg (now - L) now log
       = Some (run_windows (segment_window_query api seg)
                 (windows_back now (minutes WINDOW_MINUTES) (nat (L div minutes WINDOW_MINUTES)))
                 ([], log))"
proof -
  have w: "0 < minutes WINDOW_MINUTES" using assms by (simp add: minutes_def)
  show ?thesis
    unfolding segment_get_sessions_time_sliced_def
    using while_windows_run[OF w, of "segment_window_query api seg" "now - L" now "([], log)"]
    by simp
qed

lemma test_client_run_eq:
  "get_sessions_time_sliced api seg (now - L) now log
       = Some (run_windows (window_query api seg)
                 (windows_back now (minutes 30) (nat (L div minutes 30))) ([], log))"
proof -
  have w: "0 < minutes 30" by (simp add: minutes_def)
  show ?thesis
    unfolding get_sessions_time_sliced_def
    using while_windows_run[OF w, of "window_query api seg" "now - L" now "([], log)"]
    by simp
qed

lemma sessions_run_eq:
  assumes "0 < WINDOW_MINUTES"
  shows "sessions_window_loop api WINDOW_MINUTES (now - L) now log
       = Some (run_windows (sessions_window_query api)
                 (windows_back now (minutes WINDOW_MINUTES) (nat (L div minutes WINDOW_MINUTES)))
                 ([], log))"
proof -
  have w: "0 < minutes WINDOW_MINUTES" using assms by (simp add: minutes_def)
  show ?thesis
    unfolding sessions_window_loop_def
    using while_windows_run[OF w, of "sessions_window_query api" "now - L" now "([], log)"]
    by simp
qed

lemma sessions_window_query_cases:
  "(\<exists>recs. sessions_window_query api f t (all_records, log)
             = Continue (all_records @ recs, log @ [FailedSessions f t]))
   \<or> sessions_window_query api f t (all_records, log)
        = Break (all_records, log @ [FailedSessions f t])
   \<or> (\<exists>e. sessions_window_query api f t (all_records, log) = Raise e)"
  by (auto simp: sessions_window_query_def post_def
      split: response.splits option.splits sum.splits bool.splits)

lemma run_windows_sessions_log:
  "run_windows (sessions_window_query api) ws (all_records, log) = Inr (recs, log') \<Longrightarrow>
     \<exists>k\<le>length ws. log' = log @ map failed_request (take k ws)"
proof (induction ws arbitrary: all_records log)
  case Nil
  then show ?case by simp
next
  case (Cons w ws)
  obtain f t where w: "w = (f, t)" by (cases w)
  from sessions_window_query_cases[of api f t all_records log]
  consider (continue) rs where
      "sessions_window_query api f t (all_records, log)
         = Continue (all_records @ rs, log @ [FailedSessions f t])"
    | (break) "sessions_window_query api f t (all_records, log)
         = Break (all_records, log @ [FailedSessions f t])"
    | (raise) e where "sessions_window_query api f t (all_records, log) = Raise e"
    by blast
  then show ?case
  proof cases
    case continue
    with Cons.prems have
      "run_windows (sessions_window_query api) ws (all_records @ rs, log @ [FailedSessions f t])
         = Inr (recs, log')"
      by (simp add: w)
    from Cons.IH[OF this] obtain k where
      k: "k \<le> length ws" "log' = (log @ [FailedSessions f t]) @ map failed_request (take k ws)"
      by blast
    have "Suc k \<le> length (w # ws)" using k(1) by simp
    moreover have "log' = log @ map failed_request (take (Suc k) (w # ws))"
      using k(2) by (simp add: w failed_request_def)
    ultimately show ?thesis by blast
  next
    case break
    with Cons.prems have "log' = log @ [FailedSessions f t]" by (simp add: w)
    then have "log' = log @ map failed_request (take (Suc 0) (w # ws))"
      by (simp add: w failed_request_def)
    moreover have "Suc 0 \<le> length (w # ws)" by simp
    ultimately show ?thesis by blast
  next
    case raise
    with Cons.prems show ?thesis by (simp add: w)
  qed
qed

lemma run_windows_sessions_ok:
  "\<forall>f t m. sessions_query_ok (api (FailedSessions f t) m) \<Longrightarrow>
     \<exists>recs. run_windows (sessions_window_query api) ws (all_records, log)
              = Inr (recs, log @ map failed_request ws)"
proof (induction ws arbitrary: all_records log)
  case Nil
  then show ?case by simp
next
  case (Cons w ws)
  obtain f t where w: "w = (f, t)" by (cases w)
  have ok: "sessions_query_ok (api (FailedSessions f t) (length log))" using Cons.prems by simp
  then obtain status body where
    r: "api (FailedSessions f t) (length log) = Reply status (Some body)"
    and c: "\<not> raise_for_status status" "body_error body = Inr False"
      "\<not> isl (window_records body)"
    by (cases "api (FailedSessions f t) (length log)" rule: sessions_query_ok.cases) auto
  from c(3) obtain rs where rs: "window_records body = Inr rs"
    by (cases "window_records body") auto
  have step: "sessions_window_query api f t (all_records, log)
      = Continue (all_records @ rs, log @ [FailedSessions f t])"
    by (simp add: sessions_window_query_def post_def r c rs)
  from Cons.IH[OF Cons.prems, of "all_records @ rs" "log @ [FailedSessions f t]"]
  obtain recs where
    "run_windows (sessions_window_query api) ws (all_records @ rs, log @ [FailedSessions f t])
       = Inr (recs, (log @ [FailedSessions f t]) @ map failed_request ws)"
    by blast
  then show ?case by (simp add: w step failed_request_def)
qed

lemma run_windows_segment_ok:
  "\<forall>f t m. \<not> isl (segment_window_contribution (api (SegmentSessions seg f t) m)) \<Longrightarrow>
     \<exists>recs. run_windows (segment_window_query api seg) ws (all_sessions, log)
              = Inr (recs, log @ map (segment_request seg) ws)"
proof (induction ws arbitrary: all_sessions log)
  case Nil
  then show ?case by simp
next
  case (Cons w ws)
  obtain f t where w: "w = (f, t)" by (cases w)
  have "\<not> isl (segment_window_contribution (api (SegmentSessions seg f t) (length log)))"
    using Cons.prems by simp
  then obtain rs where
    c: "segment_window_contribution (api (SegmentSessions seg f t) (length log)) = Inr rs"
    by (cases "segment_window_contribution (api (SegmentSessions seg f t) (length log))") auto
  have step: "segment_window_query api seg f t (all_sessions, log)
      = Continue (all_sessions @ rs, log @ [SegmentSessions seg f t])"
    by (simp add: segment_window_query_def post_def c)
  from Cons.IH[OF Cons.prems, of "all_sessions @ rs" "log @ [SegmentSessions seg f t]"]
  obtain recs where
    "run_windows (segment_window_query api seg) ws (all_sessions @ rs, log @ [SegmentSessions seg f t])
       = Inr (recs, (log @ [SegmentSessions seg f t]) @ map (segment_request seg) ws)"
    by blast
  then show ?case by (simp add: w step segment_request_def)
qed

text \<open>
  C3 (as amended). For every lookback \<open>L \<ge> 0\<close> and every positive window width \<open>W\<close>,
  the windows in range are the \<open>L div W\<close> windows of width exactly \<open>W\<close> that go back
  from now without gaps. They cover the instants from \<open>now - L + L mod W\<close> up to now:
  the remainder of the range at its old end, shorter than \<open>W\<close>, is in no window (no
  partial trailing window is queried), and the whole range \<open>[now - L, now)\<close> is covered
  when \<open>W\<close> divides \<open>L\<close>. All three loops return. The paginator of test-client.py
  (width fixed at 30 minutes) always queries exactly these windows, in order. The
  paginator of get-agni-clients-by-segment.py has queried exactly these windows
  whenever it returns normally, and it does so when no reply raises an exception that
  it does not catch. The loop of get-agni-sessions.py has queried an initial part of
  these windows, in order, whenever it returns normally, and all of them when every
  query succeeds and reports no error.
\<close>

theorem windows_cover_full_widths_only:
  assumes "0 < WINDOW_MINUTES" and "0 \<le> L"
  shows "(\<exists>r. segment_get_sessions_time_sliced api WINDOW_MINUTES seg (now - L) now log = Some r)
       \<and> (\<forall>recs log'.
            segment_get_sessions_time_sliced api WINDOW_MINUTES seg (now - L) now log
              = Some (Inr (recs, log'))
            \<longrightarrow> log' = log @ map (segment_request seg)
                   (windows_back now (minutes WINDOW_MINUTES) (nat (L div minutes WINDOW_MINUTES))))
       \<and> (\<exists>recs. get_sessions_time_sliced api seg (now - L) now log
             = Some (Inr (recs, log @ map (segment_request seg)
                   (windows_back now (minutes 30) (nat (L div minutes 30))))))
       \<and> windows_back now (minutes WINDOW_MINUTES) (nat (L div minutes WINDOW_MINUTES))
           = map (\<lambda>i. (now - (int i + 1) * minutes WINDOW_MINUTES,
                        now - int i * minutes WINDOW_MINUTES))
               [0..<nat (L div minutes WINDOW_MINUTES)]
       \<and> (\<forall>x. covered (windows_back now (minutes WINDOW_MINUTES)
                          (nat (L div minutes WINDOW_MINUTES))) x
              = (now - L + L mod minutes WINDOW_MINUTES \<le> x \<and> x < now))
       \<and> 0 \<le> L mod minutes WINDOW_MINUTES
       \<and> L mod minutes WINDOW_MINUTES < minutes WINDOW_MINUTES
       \<and> (minutes WINDOW_MINUTES dvd L \<longrightarrow>
            (\<forall>x. covered (windows_back now (minutes WINDOW_MINUTES)
                             (nat (L div minutes WINDOW_MINUTES))) x
                 = (now - L \<le> x \<and> x < now)))
       \<and> ((\<forall>f t m. \<not> isl (segment_window_contribution (api (SegmentSessions seg f t) m))) \<longrightarrow>
            (\<exists>recs. segment_get_sessions_time_sliced api WINDOW_MINUTES seg (now - L) now log
               = Some (Inr (recs, log @ map (segment_request seg)
                   (windows_back now (minutes WINDOW_MINUTES)
                      (nat (L div minutes WINDOW_MINUTES)))))))
       \<and> (\<exists>r. sessions_window_loop api WINDOW_MINUTES (now - L) now log = Some r)
       \<and> (\<forall>recs log'.
            sessions_window_loop api WINDOW_MINUTES (now - L) now log = Some (Inr (recs, log'))
            \<longrightarrow> (\<exists>k\<le>nat (L div minutes WINDOW_MINUTES).
                   log' = log @ map failed_request
                     (take k (windows_back now (minutes WINDOW_MINUTES)
                                (nat (L div minutes WINDOW_MINUTES))))))
       \<and> ((\<forall>f t m. sessions_query_ok (api (FailedSessions f t) m)) \<longrightarrow>
            (\<exists>recs. sessions_window_loop api WINDOW_MINUTES (now - L) now log
               = Some (Inr (recs, log @ map failed_request
                   (windows_back now (minutes WINDOW_MINUTES)
                      (nat (L div minutes WINDOW_MINUTES)))))))"
proof -
  let ?w = "minutes WINDOW_MINUTES"
  let ?n = "nat (L div ?w)"
  let ?ws = "windows_back now ?w ?n"
  have w: "0 < ?w" using assms(1) by (simp add: minutes_def)
  have run: "segment_get_sessions_time_sliced api WINDOW_MINUTES seg (now - L) now log
       = Some (run_windows (segment_window_query api seg) ?ws ([], log))"
    by (rule segment_run_eq[OF assms(1)])
  have srun: "sessions_window_loop api WINDOW_MINUTES (now - L) now log
       = Some (run_windows (sessions_window_query api) ?ws ([], log))"
    by (rule sessions_run_eq[OF assms(1)])
  have len: "length ?ws = ?n" by (simp add: windows_back_eq)
  have p1: "\<exists>r. segment_get_sessions_time_sliced api WINDOW_MINUTES seg (now - L) now log = Some r"
    using run by simp
  have p2: "\<forall>recs log'.
            segment_get_sessions_time_sliced api WINDOW_MINUTES seg (now - L) now log
              = Some (Inr (recs, log'))
            \<longrightarrow> log' = log @ map (segment_request seg) ?ws"
    using run run_windows_segment_log[of api seg ?ws "[]" log] by auto
  have p3: "\<exists>recs. get_sessions_time_sliced api seg (now - L) now log
             = Some (Inr (recs, log @ map (segment_request seg)
                   (windows_back now (minutes 30) (nat (L div minutes 30)))))"
    unfolding test_client_run_eq run_windows_window_query by simp
  have p4: "?ws = map (\<lambda>i. (now - (int i + 1) * ?w, now - int i * ?w)) [0..<?n]"
    by (rule windows_back_eq)
  have nn: "0 \<le> L div ?w" using w assms(2) by (simp add: pos_imp_zdiv_nonneg_iff)
  have m: "L div ?w * ?w = L - L mod ?w"
    by (simp add: minus_mod_eq_div_mult)
  have p5: "\<forall>x. covered ?ws x = (now - L + L mod ?w \<le> x \<and> x < now)"
  proof
    fix x
    have "covered ?ws x = (now - int ?n * ?w \<le> x \<and> x < now)"
      by (rule covered_windows_back[OF w])
    also have "int ?n * ?w = L - L mod ?w" using nn m by simp
    finally show "covered ?ws x = (now - L + L mod ?w \<le> x \<and> x < now)"
      by (simp add: algebra_simps)
  qed
  have p6: "0 \<le> L mod ?w" and p7: "L mod ?w < ?w" using w by simp_all
  have p8: "?w dvd L \<longrightarrow> (\<forall>x. covered ?ws x = (now - L \<le> x \<and> x < now))"
    using p5 by (auto simp: mod_eq_0_iff_dvd[symmetric])
  have p9: "(\<forall>f t m. \<not> isl (segment_window_contribution (api (SegmentSessions seg f t) m))) \<longrightarrow>
            (\<exists>recs. segment_get_sessions_time_sliced api WINDOW_MINUTES seg (now - L) now log
               = Some (Inr (recs, log @ map (segment_request seg) ?ws)))"
    unfolding run using run_windows_segment_ok[of api seg ?ws "[]" log] by simp
  have p10: "\<exists>r. sessions_window_loop api WINDOW_MINUTES (now - L) now log = Some r"
    using srun by simp
  have p11: "\<forall>recs log'.
            sessions_window_loop api WINDOW_MINUTES (now - L) now log = Some (Inr (recs, log'))
            \<longrightarrow> (\<exists>k\<le>?n. log' = log @ map failed_request (take k ?ws))"
    unfolding srun using run_windows_sessions_log[of api ?ws "[]" log] len by auto
  have p12: "(\<forall>f t m. sessions_query_ok (api (FailedSessions f t) m)) \<longrightarrow>
            (\<exists>recs. sessions_window_loop api WINDOW_MINUTES (now - L) now log
               = Some (Inr (recs, log @ map failed_request ?ws)))"
    unfolding srun using run_windows_sessions_ok[of api ?ws "[]" log] by simp
  show ?thesis
    by (intro conjI) (rule p1 p2 p3 p4 p5 p6 p7 p8 p9 p10 p11 p12)+
qed

text \<open>
  C3 as stated fails: with a lookback of one hour and windows of 45 minutes the loop
  queries the single window \<open>[now - 45 min, now)\<close> and stops, since the next window
  would start before \<open>now - 60 min\<close>. The instant \<open>now - 50 min\<close> lies in the range
  and in no queried window: no partial trailing window is queried.
\<close>

theorem partial_trailing_window_not_queried:
  "segment_get_sessions_time_sliced quiet_api 45 seg0 (now0 - hours 1) now0 []
     = Some (Inr ([], [SegmentSessions seg0 (now0 - minutes 45) now0]))
   \<and> now0 - hours 1 \<le> now0 - minutes 50 \<and> now0 - minutes 50 < now0
   \<and> \<not> covered (windows_of [SegmentSessions seg0 (now0 - minutes 45) now0]) (now0 - minutes 50)"
  by (simp add: segment_get_sessions_time_sliced_def while_windows.simps minutes_def hours_def
      now0_def segment_window_query_def post_def quiet_api_def records_body_def
      window_records_def dict_get_default_def covered_def windows_of_def)

theorem windows_cover_full_widths_only_witness:
  "(0::int) < 45 \<and> 0 \<le> hours 1
   \<and> [SegmentSessions seg0 (now0 - minutes 45) now0]
       = [] @ map (segment_request seg0)
                (windows_back now0 (minutes 45) (nat (hours 1 div minutes 45)))
   \<and> covered (windows_back now0 (minutes 45) (nat (hours 1 div minutes 45))) (now0 - minutes 45)
   \<and> \<not> covered (windows_back now0 (minutes 45) (nat (hours 1 div minutes 45))) (now0 - minutes 50)
   \<and> (0::int) < 30 \<and> 0 \<le> hours 24 \<and> minutes 30 dvd hours 24
   \<and> covered (windows_back now0 (minutes 30) (nat (hours 24 div minutes 30))) (now0 - hours 24)
   \<and> (\<forall>f t m. \<not> isl (segment_window_contribution (quiet_api (SegmentSessions seg0 f t) m)))
   \<and> (\<exists>recs. segment_get_sessions_time_sliced quiet_api 45 seg0 (now0 - hours 1) now0 []
          = Some (Inr (recs, [] @ map (segment_request seg0)
                   (windows_back now0 (minutes 45) (nat (hours 1 div minutes 45))))))
   \<and> (\<forall>f t m. sessions_query_ok (quiet_api (FailedSessions f t) m))
   \<and> (\<exists>recs. sessions_window_loop quiet_api 45 (now0 - hours 1) now0 []
          = Some (Inr (recs, [] @ map failed_request
                   (windows_back now0 (minutes 45) (nat (hours 1 div minutes 45))))))
   \<and> 0 \<le> minutes 95
   \<and> sessions_window_loop flaky_api 30 (now0 - minutes 95) now0 []
       = Some (Inr ([sess_new],
                    [FailedSessions (now0 - minutes 30) now0,
                     FailedSessions (now0 - minutes 60) (now0 - minutes 30)]))
   \<and> (\<exists>k\<le>nat (minutes 95 div minutes 30).
         [FailedSessions (now0 - minutes 30) now0,
          FailedSessions (now0 - minutes 60) (now0 - minutes 30)]
         = [] @ map failed_request
                  (take k (windows_back now0 (minutes 30) (nat (minutes 95 div minutes 30)))))"
proof -
  have h1: "(0::int) < 45" and h2: "0 \<le> hours 1" by (simp_all add: hours_def)
  have g1: "(0::int) < 30" and g2: "0 \<le> hours 24" by (simp_all add: hours_def)
  have g3: "minutes 30 dvd hours 24" by (simp add: minutes_def hours_def)
  have k2: "0 \<le> minutes 95" by (simp add: minutes_def)
  have run: "segment_get_sessions_time_sliced quiet_api 45 seg0 (now0 - hours 1) now0 []
     = Some (Inr ([], [SegmentSessions seg0 (now0 - minutes 45) now0]))"
    by (simp add: segment_get_sessions_time_sliced_def while_windows.simps minutes_def hours_def
      now0_def segment_window_query_def post_def quiet_api_def records_body_def
      window_records_def dict_get_default_def)
  have srun: "sessions_window_loop flaky_api 30 (now0 - minutes 95) now0 []
       = Some (Inr ([sess_new],
                    [FailedSessions (now0 - minutes 30) now0,
                     FailedSessions (now0 - minutes 60) (now0 - minutes 30)]))"
    by (simp add: sessions_window_loop_def while_windows.simps minutes_def
      now0_def sessions_window_query_def post_def flaky_api_def records_body_def
      window_records_def dict_get_default_def raise_for_status_def)
  have qs: "\<forall>f t m. \<not> isl (segment_window_contribution (quiet_api (SegmentSessions seg0 f t) m))"
    by (simp add: quiet_api_def records_body_def window_records_def dict_get_default_def
        raise_for_status_def)
  have qo: "\<forall>f t m. sessions_query_ok (quiet_api (FailedSessions f t) m)"
    by (simp add: quiet_api_def records_body_def window_records_def dict_get_default_def
        raise_for_status_def)
  note a = windows_cover_full_widths_only[OF h1 h2, of quiet_api seg0 now0 "[]"]
  note b = windows_cover_full_widths_only[OF g1 g2, of quiet_api seg0 now0 "[]"]
  note c = windows_cover_full_widths_only[OF g1 k2, of flaky_api seg0 now0 "[]"]
  have c1: "[SegmentSessions seg0 (now0 - minutes 45) now0]
       = [] @ map (segment_request seg0)
                (windows_back now0 (minutes 45) (nat (hours 1 div minutes 45)))"
    by (rule mp[OF spec[OF spec[OF conjunct1[OF conjunct2[OF a]]]] run])
  note cov = conjunct1[OF conjunct2[OF conjunct2[OF conjunct2[OF conjunct2[OF a]]]]]
  have c2: "covered (windows_back now0 (minutes 45) (nat (hours 1 div minutes 45))) (now0 - minutes 45)"
    unfolding cov[rule_format] by (simp add: minutes_def hours_def)
  have c3: "\<not> covered (windows_back now0 (minutes 45) (nat (hours 1 div minutes 45))) (now0 - minutes 50)"
    unfolding cov[rule_format] by (simp add: minutes_def hours_def)
  note cov24 = mp[OF conjunct1[OF conjunct2[OF conjunct2[OF conjunct2[OF conjunct2[OF conjunct2[OF conjunct2[OF conjunct2[OF b]]]]]]]] g3]
  have c4: "covered (windows_back now0 (minutes 30) (nat (hours 24 div minutes 30))) (now0 - hours 24)"
    unfolding cov24[rule_format] by (simp add: hours_def)
  have c5: "\<exists>recs. segment_get_sessions_time_sliced quiet_api 45 seg0 (now0 - hours 1) now0 []
          = Some (Inr (recs, [] @ map (segment_request seg0)
                   (windows_back now0 (minutes 45) (nat (hours 1 div minutes 45)))))"
    by (rule mp[OF conjunct1[OF conjunct2[OF conjunct2[OF conjunct2[OF conjunct2[OF conjunct2[OF conjunct2[OF conjunct2[OF conjunct2[OF a]]]]]]]]] qs])
  have c6: "\<exists>recs. sessions_window_loop quiet_api 45 (now0 - hours 1) now0 []
          = Some (Inr (recs, [] @ map failed_request
                   (windows_back now0 (minutes 45) (nat (hours 1 div minutes 45)))))"
    by (rule mp[OF conjunct2[OF conjunct2[OF conjunct2[OF conjunct2[OF conjunct2[OF conjunct2[OF conjunct2[OF conjunct2[OF conjunct2[OF conjunct2[OF conjunct2[OF a]]]]]]]]]]] qo])
  have c7: "\<exists>k\<le>nat (minutes 95 div minutes 30).
         [FailedSessions (now0 - minutes 30) now0,
          FailedSessions (now0 - minutes 60) (now0 - minutes 30)]
         = [] @ map failed_request
                  (take k (windows_back now0 (minutes 30) (nat (minutes 95 div minutes 30))))"
    by (rule mp[OF spec[OF spec[OF conjunct1[OF conjunct2[OF conjunct2[OF conjunct2[OF conjunct2[OF conjunct2[OF conjunct2[OF conjunct2[OF conjunct2[OF conjunct2[OF conjunct2[OF c]]]]]]]]]]]]] srun])
  show ?thesis
    by (intro conjI) (rule h1 h2 c1 c2 c3 g1 g2 g3 c4 qs c5 qo c6 k2 srun c7)+
qed




subsection \<open>Lookup Cache\<close>

lemma vdict_lookup_key_eq:
  "key_eq a b \<Longrightarrow> vdict_lookup d a = vdict_lookup d b"
  by (induction d) (auto simp: key_eq_def)

lemma get_nad_name_keeps:
  assumes "vdict_lookup cache k = Some v"
    and "get_nad_name api nad_id (cache, log) = Inr (name, (cache', log'))"
  shows "vdict_lookup cache' k = Some v"
proof (cases "cache' = cache")
  case True
  with assms show ?thesis by simp
next
  case False
  with assms(2) obtain nm where n: "vdict_lookup cache nad_id = None"
      and c: "cache' = vdict_set cache nad_id nm"
    by (auto simp: get_nad_name_def post_def split: if_splits option.splits)
  have "\<not> key_eq nad_id k"
    using vdict_lookup_key_eq[of nad_id k cache] n assms(1) by auto
  then show ?thesis using assms(1) c by (simp add: vdict_lookup_set)
qed

lemma nad_calls_keep:
  "vdict_lookup cache k = Some v \<Longrightarrow> nad_calls api ids (cache, log) = (cache', log') \<Longrightarrow>
     vdict_lookup cache' k = Some v"
proof (induction ids arbitrary: cache log)
  case Nil
  then show ?case by simp
next
  case (Cons i ids)
  show ?case
  proof (cases "get_nad_name api i (cache, log)")
    case (Inl e)
    with Cons show ?thesis by simp
  next
    case (Inr r)
    obtain nm c1 l1 where r: "r = (nm, (c1, l1))" by (cases r) auto
    have k: "vdict_lookup c1 k = Some v"
      using get_nad_name_keeps[OF Cons.prems(1)] Inr r by simp
    show ?thesis
      using Cons.IH[OF k] Cons.prems(2) Inr r by simp
  qed
qed

lemma fetch_nad_name_named:
  assumes "resp = Reply 200 (Some (JObj d))" and "map_of d ''data'' = Some (JObj dd)"
    and "map_of dd ''name'' = Some name"
  shows "fetch_nad_name resp = Some name"
  using assms by (simp add: nad_name_of_body_def dict_get_default_def)

lemma fetch_nad_name_failed:
  assumes "lookup_failed resp \<or> (\<exists>body. resp = Reply 200 (Some body) \<and> isl (nad_name_of_body body))"
  shows "fetch_nad_name resp = None"
  using assms
proof
  assume "lookup_failed resp"
  then show ?thesis by (cases resp rule: lookup_failed.cases) auto
next
  assume "\<exists>body. resp = Reply 200 (Some body) \<and> isl (nad_name_of_body body)"
  then obtain body where "resp = Reply 200 (Some body)" "isl (nad_name_of_body body)" by blast
  then show ?thesis by (cases "nad_name_of_body body") auto
qed

text \<open>
  C6 (as amended). For a switch id that is not cached yet: when the fetch of a call
  returns status 200 with a body that carries a name, the call stores the name, and
  every later call for the same id, after any series of other calls, returns that name
  and leaves the cache and the request log as they are (no request is made). When the
  request raises, or the status is not 200, or the body cannot be read (it is not JSON
  or not made of nested dictionaries), the call returns the placeholder and leaves the
  cache unchanged; any call for an id that is not cached makes a request, and when
  the fetch that follows a failed one returns a name, that call returns and stores it.
\<close>

theorem nad_cache_hit_and_miss:
  assumes "truthy nad_id" and "hashable nad_id" and "vdict_lookup nad_cache nad_id = None"
  shows "(\<forall>d dd name.
            api (NadGet nad_id) (length log) = Reply 200 (Some (JObj d))
            \<and> map_of d ''data'' = Some (JObj dd) \<and> map_of dd ''name'' = Some name \<longrightarrow>
            get_nad_name api nad_id (nad_cache, log)
              = Inr (name, (vdict_set nad_cache nad_id name, log @ [NadGet nad_id]))
          \<and> (\<forall>ids. get_nad_name api nad_id
                      (nad_calls api ids (vdict_set nad_cache nad_id name, log @ [NadGet nad_id]))
                    = Inr (name, nad_calls api ids
                                   (vdict_set nad_cache nad_id name, log @ [NadGet nad_id]))))
       \<and> (lookup_failed (api (NadGet nad_id) (length log))
            \<or> (\<exists>body. api (NadGet nad_id) (length log) = Reply 200 (Some body)
                  \<and> isl (nad_name_of_body body)) \<longrightarrow>
            get_nad_name api nad_id (nad_cache, log)
              = Inr (JStr ''Unknown'', (nad_cache, log @ [NadGet nad_id])))
       \<and> (\<forall>log'. \<exists>name nad_cache'.
            get_nad_name api nad_id (nad_cache, log')
              = Inr (name, (nad_cache', log' @ [NadGet nad_id])))
       \<and> (\<forall>d dd name.
            (lookup_failed (api (NadGet nad_id) (length log))
             \<or> (\<exists>body. api (NadGet nad_id) (length log) = Reply 200 (Some body)
                   \<and> isl (nad_name_of_body body)))
            \<and> api (NadGet nad_id) (Suc (length log)) = Reply 200 (Some (JObj d))
            \<and> map_of d ''data'' = Some (JObj dd) \<and> map_of dd ''name'' = Some name \<longrightarrow>
            get_nad_name api nad_id (nad_cache, log @ [NadGet nad_id])
              = Inr (name, (vdict_set nad_cache nad_id name,
                            log @ [NadGet nad_id, NadGet nad_id])))"
proof -
  have hit: "get_nad_name api nad_id (nad_calls api ids (vdict_set nad_cache nad_id name, l))
             = Inr (name, nad_calls api ids (vdict_set nad_cache nad_id name, l))" for ids name l
  proof -
    obtain c' l' where st: "nad_calls api ids (vdict_set nad_cache nad_id name, l) = (c', l')"
      by (cases "nad_calls api ids (vdict_set nad_cache nad_id name, l)")
    have "vdict_lookup (vdict_set nad_cache nad_id name) nad_id = Some name"
      by (simp add: vdict_lookup_set key_eq_refl)
    from nad_calls_keep[OF this st] have "vdict_lookup c' nad_id = Some name" .
    then show ?thesis
      unfolding st using assms(1,2) by (simp add: get_nad_name_def)
  qed
  have store: "get_nad_name api nad_id (nad_cache, l)
              = Inr (name, (vdict_set nad_cache nad_id name, l @ [NadGet nad_id]))"
    if "fetch_nad_name (api (NadGet nad_id) (length l)) = Some name" for name l
    using assms that by (simp add: get_nad_name_def post_def)
  have p1: "get_nad_name api nad_id (nad_cache, log)
              = Inr (name, (vdict_set nad_cache nad_id name, log @ [NadGet nad_id]))
          \<and> (\<forall>ids. get_nad_name api nad_id
                      (nad_calls api ids (vdict_set nad_cache nad_id name, log @ [NadGet nad_id]))
                    = Inr (name, nad_calls api ids
                                   (vdict_set nad_cache nad_id name, log @ [NadGet nad_id])))"
    if "api (NadGet nad_id) (length log) = Reply 200 (Some (JObj d))
            \<and> map_of d ''data'' = Some (JObj dd) \<and> map_of dd ''name'' = Some name"
    for d dd name
  proof -
    from that have "fetch_nad_name (api (NadGet nad_id) (length log)) = Some name"
      by (elim conjE) (rule fetch_nad_name_named)
    from store[OF this] hit show ?thesis by simp
  qed
  have p2: "get_nad_name api nad_id (nad_cache, log)
              = Inr (JStr ''Unknown'', (nad_cache, log @ [NadGet nad_id]))"
    if "lookup_failed (api (NadGet nad_id) (length log))
            \<or> (\<exists>body. api (NadGet nad_id) (length log) = Reply 200 (Some body)
                  \<and> isl (nad_name_of_body body))"
    using assms fetch_nad_name_failed[OF that] by (simp add: get_nad_name_def post_def)
  have p3: "\<exists>name nad_cache'. get_nad_name api nad_id (nad_cache, log')
              = Inr (name, (nad_cache', log' @ [NadGet nad_id]))" for log'
    using assms by (simp add: get_nad_name_def post_def split: option.splits)
  have p4: "get_nad_name api nad_id (nad_cache, log @ [NadGet nad_id])
              = Inr (name, (vdict_set nad_cache nad_id name,
                            log @ [NadGet nad_id, NadGet nad_id]))"
    if "(lookup_failed (api (NadGet nad_id) (length log))
             \<or> (\<exists>body. api (NadGet nad_id) (length log) = Reply 200 (Some body)
                   \<and> isl (nad_name_of_body body)))
            \<and> api (NadGet nad_id) (Suc (length log)) = Reply 200 (Some (JObj d))
            \<and> map_of d ''data'' = Some (JObj dd) \<and> map_of dd ''name'' = Some name"
    for d dd name
  proof -
    from that have "fetch_nad_name (api (NadGet nad_id) (Suc (length log))) = Some name"
      by (elim conjE) (rule fetch_nad_name_named)
    then have "fetch_nad_name (api (NadGet nad_id) (length (log @ [NadGet nad_id]))) = Some name"
      by simp
    from store[OF this] show ?thesis by simp
  qed
  show ?thesis
  proof (intro conjI allI impI)
    fix d dd name
    assume a: "api (NadGet nad_id) (length log) = Reply 200 (Some (JObj d))
            \<and> map_of d ''data'' = Some (JObj dd) \<and> map_of dd ''name'' = Some name"
    from p1[OF a] show "get_nad_name api nad_id (nad_cache, log)
              = Inr (name, (vdict_set nad_cache nad_id name, log @ [NadGet nad_id]))"
      by (rule conjunct1)
    fix ids
    from p1[OF a] show "get_nad_name api nad_id
                      (nad_calls api ids (vdict_set nad_cache nad_id name, log @ [NadGet nad_id]))
                    = Inr (name, nad_calls api ids
                                   (vdict_set nad_cache nad_id name, log @ [NadGet nad_id]))"
      by simp
  next
    assume "lookup_failed (api (NadGet nad_id) (length log))
            \<or> (\<exists>body. api (NadGet nad_id) (length log) = Reply 200 (Some body)
                  \<and> isl (nad_name_of_body body))"
    then show "get_nad_name api nad_id (nad_cache, log)
              = Inr (JStr ''Unknown'', (nad_cache, log @ [NadGet nad_id]))"
      by (rule p2)
  next
    fix log'
    show "\<exists>name nad_cache'. get_nad_name api nad_id (nad_cache, log')
              = Inr (name, (nad_cache', log' @ [NadGet nad_id]))"
      by (rule p3)
  next
    fix d dd name
    assume "(lookup_failed (api (NadGet nad_id) (length log))
             \<or> (\<exists>body. api (NadGet nad_id) (length log) = Reply 200 (Some body)
                   \<and> isl (nad_name_of_body body)))
            \<and> api (NadGet nad_id) (Suc (length log)) = Reply 200 (Some (JObj d))
            \<and> map_of d ''data'' = Some (JObj dd) \<and> map_of dd ''name'' = Some name"
    then show "get_nad_name api nad_id (nad_cache, log @ [NadGet nad_id])
              = Inr (name, (vdict_set nad_cache nad_id name,
                            log @ [NadGet nad_id, NadGet nad_id]))"
      by (rule p4)
  qed
qed

text \<open>
  C6 as stated fails when a fetch fails inside a reply of status 200: the body reports
  an error and carries no data, \<^verbatim>\<open>get_nad_name\<close> reads the default
  \<^verbatim>\<open>"Unknown"\<close> from it and stores it, and the next call for the id returns the
  stored placeholder without a request, although that request would have returned the
  name.
\<close>

theorem error_reply_is_cached:
  "error_api (NadGet nad1) 0 = Reply 200 (Some (JObj [(''error'', JStr ''rate limited'')]))
   \<and> get_nad_name error_api nad1 ([], [])
       = Inr (JStr ''Unknown'', ([(nad1, JStr ''Unknown'')], [NadGet nad1]))
   \<and> error_api (NadGet nad1) 1 = Reply 200 (Some (nad_body ''sw-1''))
   \<and> get_nad_name error_api nad1 ([(nad1, JStr ''Unknown'')], [NadGet nad1])
       = Inr (JStr ''Unknown'', ([(nad1, JStr ''Unknown'')], [NadGet nad1]))"
  by (simp add: error_api_def nad1_def get_nad_name_def post_def nad_name_of_body_def
      dict_get_default_def key_eq_def)

theorem nad_cache_hit_and_miss_witness:
  "truthy nad1 \<and> hashable nad1 \<and> vdict_lookup ([]::(json \<times> json) list) nad1 = None
   \<and> lookup_failed (nad_api (NadGet nad1) (length ([]::request list)))
   \<and> get_nad_name nad_api nad1 ([], []) = Inr (JStr ''Unknown'', ([], [] @ [NadGet nad1]))
   \<and> nad_api (NadGet nad1) (Suc (length ([]::request list)))
       = Reply 200 (Some (JObj [(''data'', JObj [(''name'', JStr ''sw-1'')])]))
   \<and> get_nad_name nad_api nad1 ([], [] @ [NadGet nad1])
       = Inr (JStr ''sw-1'', (vdict_set [] nad1 (JStr ''sw-1''), [] @ [NadGet nad1, NadGet nad1]))
   \<and> nad_api (NadGet nad1) (length [NadGet nad1])
       = Reply 200 (Some (JObj [(''data'', JObj [(''name'', JStr ''sw-1'')])]))
   \<and> get_nad_name nad_api nad1 ([], [NadGet nad1])
       = Inr (JStr ''sw-1'', (vdict_set [] nad1 (JStr ''sw-1''), [NadGet nad1] @ [NadGet nad1]))
   \<and> get_nad_name nad_api nad1
         (nad_calls nad_api [JStr ''nad-2'', nad1, JList []]
            (vdict_set [] nad1 (JStr ''sw-1''), [NadGet nad1] @ [NadGet nad1]))
       = Inr (JStr ''sw-1'',
              nad_calls nad_api [JStr ''nad-2'', nad1, JList []]
                (vdict_set [] nad1 (JStr ''sw-1''), [NadGet nad1] @ [NadGet nad1]))
   \<and> nad_calls nad_api [JStr ''nad-2'', nad1, JList []]
         (vdict_set [] nad1 (JStr ''sw-1''), [NadGet nad1] @ [NadGet nad1])
       = ([(nad1, JStr ''sw-1''), (JStr ''nad-2'', JStr ''sw-1'')],
          [NadGet nad1, NadGet nad1, NadGet (JStr ''nad-2'')])"
proof -
  have h1: "truthy nad1" and h2: "hashable nad1"
    and h3: "vdict_lookup ([]::(json \<times> json) list) nad1 = None"
    by (simp_all add: nad1_def)
  have f0: "lookup_failed (nad_api (NadGet nad1) (length ([]::request list)))"
    by (simp add: nad_api_def)
  have r1: "nad_api (NadGet nad1) (Suc (length ([]::request list)))
       = Reply 200 (Some (JObj [(''data'', JObj [(''name'', JStr ''sw-1'')])]))"
    by (simp add: nad_api_def nad_body_def)
  have r2: "nad_api (NadGet nad1) (length [NadGet nad1])
       = Reply 200 (Some (JObj [(''data'', JObj [(''name'', JStr ''sw-1'')])]))"
    by (simp add: nad_api_def nad_body_def)
  have m1: "map_of [(''data'', JObj [(''name'', JStr ''sw-1'')])] ''data''
              = Some (JObj [(''name'', JStr ''sw-1'')])"
    and m2: "map_of [(''name'', JStr ''sw-1'')] ''name'' = Some (JStr ''sw-1'')"
    by simp_all
  note a = nad_cache_hit_and_miss[OF h1 h2 h3, of nad_api "[]"]
  note b = nad_cache_hit_and_miss[OF h1 h2 h3, of nad_api "[NadGet nad1]"]
  note a1 = conjunct1[OF a]
  note a2 = conjunct1[OF conjunct2[OF a]]
  note a4 = conjunct2[OF conjunct2[OF conjunct2[OF a]]]
  note b1 = conjunct1[OF b]
  have c0: "get_nad_name nad_api nad1 ([], []) = Inr (JStr ''Unknown'', ([], [] @ [NadGet nad1]))"
    by (rule mp[OF a2 disjI1[OF f0]])
  have c4: "get_nad_name nad_api nad1 ([], [] @ [NadGet nad1])
       = Inr (JStr ''sw-1'', (vdict_set [] nad1 (JStr ''sw-1''), [] @ [NadGet nad1, NadGet nad1]))"
    by (rule mp[OF spec[OF spec[OF spec[OF a4]]] conjI[OF disjI1[OF f0] conjI[OF r1 conjI[OF m1 m2]]]])
  note b1i = mp[OF spec[OF spec[OF spec[OF b1]]] conjI[OF r2 conjI[OF m1 m2]]]
  have c1: "get_nad_name nad_api nad1 ([], [NadGet nad1])
       = Inr (JStr ''sw-1'', (vdict_set [] nad1 (JStr ''sw-1''), [NadGet nad1] @ [NadGet nad1]))"
    by (rule conjunct1[OF b1i])
  have c2: "get_nad_name nad_api nad1
         (nad_calls nad_api [JStr ''nad-2'', nad1, JList []]
            (vdict_set [] nad1 (JStr ''sw-1''), [NadGet nad1] @ [NadGet nad1]))
       = Inr (JStr ''sw-1'',
              nad_calls nad_api [JStr ''nad-2'', nad1, JList []]
                (vdict_set [] nad1 (JStr ''sw-1''), [NadGet nad1] @ [NadGet nad1]))"
    by (rule spec[OF conjunct2[OF b1i]])
  have c3: "nad_calls nad_api [JStr ''nad-2'', nad1, JList []]
         (vdict_set [] nad1 (JStr ''sw-1''), [NadGet nad1] @ [NadGet nad1])
       = ([(nad1, JStr ''sw-1''), (JStr ''nad-2'', JStr ''sw-1'')],
          [NadGet nad1, NadGet nad1, NadGet (JStr ''nad-2'')])"
    by (simp add: nad1_def get_nad_name_def post_def nad_api_def nad_body_def
        nad_name_of_body_def dict_get_default_def key_eq_def)
  show ?thesis
    by (intro conjI) (rule h1 h2 h3 f0 c0 r1 c4 r2 c1 c2 c3)+
qed

subsection \<open>Enrichment Merger\<close>

lemma keys_update: "fst ` set (AList.update k v al) = insert k (fst ` set al)"
  by (simp add: dom_update)

lemma not_client_prefix: "\<not> prefix ''client_'' x \<Longrightarrow> x \<noteq> ''client_'' @ k"
  by (auto simp: prefix_def)

lemma map_of_key: "map_of al x = Some v \<Longrightarrow> x \<in> fst ` set al"
  by (metis domI dom_map_of_conv_image_fst)

lemma keys_fold_attrs:
  "fst ` set c \<subseteq> fst ` set (fold (\<lambda>kv rec. AList.update (''client_attr_'' @ fst kv) (snd kv) rec) kvs c)"
proof (induction kvs arbitrary: c)
  case Nil
  then show ?case by simp
next
  case (Cons kv kvs)
  have "fst ` set c \<subseteq> fst ` set (AList.update (''client_attr_'' @ fst kv) (snd kv) c)"
    by (auto simp: keys_update)
  also have "\<dots> \<subseteq> fst ` set (fold (\<lambda>kv rec. AList.update (''client_attr_'' @ fst kv) (snd kv) rec)
       kvs (AList.update (''client_attr_'' @ fst kv) (snd kv) c))"
    by (rule Cons.IH)
  finally show ?case by simp
qed

lemma value_fold_attrs:
  "map_of c x = Some v \<Longrightarrow> \<not> prefix ''client_'' x \<Longrightarrow>
     map_of (fold (\<lambda>kv rec. AList.update (''client_attr_'' @ fst kv) (snd kv) rec) kvs c) x = Some v"
proof (induction kvs arbitrary: c)
  case Nil
  then show ?case by simp
next
  case (Cons kv kvs)
  have "x \<noteq> ''client_attr_'' @ fst kv"
    using not_client_prefix[OF Cons.prems(2), of "''attr_'' @ fst kv"] by simp
  then have "map_of (AList.update (''client_attr_'' @ fst kv) (snd kv) c) x = Some v"
    using Cons.prems(1) by (simp add: update_conv)
  from Cons.IH[OF this Cons.prems(2)] show ?case by simp
qed

lemma keys_flatten_attributes:
  assumes "flatten_attributes c a = Inr c'"
  shows "fst ` set c \<subseteq> fst ` set c'"
proof (cases "truthy a")
  case False
  with assms show ?thesis by (simp add: flatten_attributes_def)
next
  case True
  with assms obtain kvs where
    "c' = fold (\<lambda>kv rec. AList.update (''client_attr_'' @ fst kv) (snd kv) rec) kvs c"
    by (auto simp: flatten_attributes_def split: json.splits)
  then show ?thesis using keys_fold_attrs[of c kvs] by simp
qed

lemma value_flatten_attributes:
  assumes "flatten_attributes c a = Inr c'" and "map_of c x = Some v"
    and "\<not> prefix ''client_'' x"
  shows "map_of c' x = Some v"
proof (cases "truthy a")
  case False
  with assms show ?thesis by (simp add: flatten_attributes_def)
next
  case True
  with assms(1) obtain kvs where
    "c' = fold (\<lambda>kv rec. AList.update (''client_attr_'' @ fst kv) (snd kv) rec) kvs c"
    by (auto simp: flatten_attributes_def split: json.splits)
  then show ?thesis using value_fold_attrs[OF assms(2) assms(3), of kvs] by simp
qed

lemma keys_flatten_certificate:
  "fst ` set c \<subseteq> fst ` set (flatten_certificate ckey cfield c cert)"
  by (auto simp: flatten_certificate_def keys_update split: json.splits)

lemma value_flatten_certificate:
  "map_of c x = Some v \<Longrightarrow> x \<noteq> ckey \<Longrightarrow> x \<noteq> ''cert_expiry'' \<Longrightarrow>
     map_of (flatten_certificate ckey cfield c cert) x = Some v"
  by (auto simp: flatten_certificate_def update_conv split: json.splits)

lemma keys_merge_field: "fst ` set c \<subseteq> fst ` set (merge_field kv c)"
  by (auto simp: merge_field_def keys_update)

lemma keys_merge_remaining: "fst ` set c \<subseteq> fst ` set (merge_remaining c cd)"
  unfolding merge_remaining_def
proof (induction cd arbitrary: c)
  case Nil
  then show ?case by simp
next
  case (Cons kv cd)
  have "fst ` set c \<subseteq> fst ` set (merge_field kv c)" by (rule keys_merge_field)
  also have "\<dots> \<subseteq> fst ` set (fold merge_field cd (merge_field kv c))" by (rule Cons.IH)
  finally show ?case by simp
qed

lemma value_merge_field:
  assumes "map_of c y = Some v" and "''client_'' @ fst kv \<noteq> y"
  shows "map_of (merge_field kv c) y = Some v"
proof (cases "fst kv \<in> set (map fst c)")
  case True
  then show ?thesis using assms by (simp add: merge_field_def update_conv)
next
  case False
  have "y \<in> fst ` set c" using assms(1) by (rule map_of_key)
  then have "fst kv \<noteq> y" using False by auto
  then show ?thesis using False assms(1) by (simp add: merge_field_def update_conv)
qed

lemma value_merge_remaining:
  "map_of c y = Some v \<Longrightarrow> \<forall>kv\<in>set cd. ''client_'' @ fst kv \<noteq> y \<Longrightarrow>
     map_of (merge_remaining c cd) y = Some v"
  unfolding merge_remaining_def
proof (induction cd arbitrary: c)
  case Nil
  then show ?case by simp
next
  case (Cons kv cd)
  have "map_of (merge_field kv c) y = Some v"
    using value_merge_field[OF Cons.prems(1)] Cons.prems(2) by simp
  from Cons.IH[OF this] Cons.prems(2) show ?case by simp
qed

lemma alias_merge_remaining:
  "distinct (map fst cd) \<Longrightarrow> (k, v) \<in> set cd \<Longrightarrow> k \<in> fst ` set c \<Longrightarrow>
     map_of (merge_remaining c cd) (''client_'' @ k) = Some v"
proof (induction cd arbitrary: c)
  case Nil
  then show ?case by simp
next
  case (Cons kv cd)
  show ?case
  proof (cases "kv = (k, v)")
    case True
    have w: "map_of (merge_field kv c) (''client_'' @ k) = Some v"
      using True Cons.prems(3) by (simp add: merge_field_def update_conv)
    have "\<forall>kv'\<in>set cd. ''client_'' @ fst kv' \<noteq> ''client_'' @ k"
      using Cons.prems(1) True by auto
    from value_merge_remaining[OF w this] show ?thesis
      by (simp add: merge_remaining_def)
  next
    case False
    then have m: "(k, v) \<in> set cd" using Cons.prems(2) by auto
    have d: "distinct (map fst cd)" using Cons.prems(1) by simp
    have "k \<in> fst ` set (merge_field kv c)"
      using keys_merge_field[of c kv] Cons.prems(3) by auto
    from Cons.IH[OF d m this] show ?thesis by (simp add: merge_remaining_def)
  qed
qed

lemma keys_merge_client_data:
  assumes "merge_client_data ckey cfield c cdata = Inr c'"
  shows "fst ` set c \<subseteq> fst ` set c'"
proof -
  from assms obtain cd rec1 where cd: "cdata = JObj cd"
    and fa: "flatten_attributes c (dict_get_default cd ''attributes'' (JObj [])) = Inr rec1"
    and c': "c' = merge_remaining
               (flatten_certificate ckey cfield rec1 (dict_get (AList.delete ''attributes'' cd) ''certificate''))
               (AList.delete ''certificate'' (AList.delete ''attributes'' cd))"
    by (auto simp: merge_client_data_def Let_def split: json.splits sum.splits)
  have "fst ` set c \<subseteq> fst ` set rec1" using fa by (rule keys_flatten_attributes)
  also have "\<dots> \<subseteq> fst ` set (flatten_certificate ckey cfield rec1
                 (dict_get (AList.delete ''attributes'' cd) ''certificate''))"
    by (rule keys_flatten_certificate)
  also have "\<dots> \<subseteq> fst ` set c'" unfolding c' by (rule keys_merge_remaining)
  finally show ?thesis .
qed

lemma value_merge_client_data:
  assumes "merge_client_data ckey cfield c cdata = Inr c'"
    and "map_of c x = Some v" and "x \<noteq> ckey" and "x \<noteq> ''cert_expiry''"
    and "\<not> prefix ''client_'' x"
  shows "map_of c' x = Some v"
proof -
  from assms(1) obtain cd rec1 where cd: "cdata = JObj cd"
    and fa: "flatten_attributes c (dict_get_default cd ''attributes'' (JObj [])) = Inr rec1"
    and c': "c' = merge_remaining
               (flatten_certificate ckey cfield rec1 (dict_get (AList.delete ''attributes'' cd) ''certificate''))
               (AList.delete ''certificate'' (AList.delete ''attributes'' cd))"
    by (auto simp: merge_client_data_def Let_def split: json.splits sum.splits)
  have 1: "map_of rec1 x = Some v"
    using value_flatten_attributes[OF fa assms(2) assms(5)] .
  have 2: "map_of (flatten_certificate ckey cfield rec1
                 (dict_get (AList.delete ''attributes'' cd) ''certificate'')) x = Some v"
    using value_flatten_certificate[OF 1 assms(3) assms(4)] .
  have "\<forall>kv\<in>set (AList.delete ''certificate'' (AList.delete ''attributes'' cd)).
          ''client_'' @ fst kv \<noteq> x"
    using not_client_prefix[OF assms(5)] by auto
  from value_merge_remaining[OF 2 this] show ?thesis unfolding c' .
qed

lemma alias_merge_client_data:
  assumes "merge_client_data ckey cfield c (JObj cd) = Inr c'"
    and "distinct (map fst cd)" and "(k, v) \<in> set cd"
    and "k \<noteq> ''attributes''" and "k \<noteq> ''certificate''" and "k \<in> fst ` set c"
  shows "map_of c' (''client_'' @ k) = Some v"
proof -
  let ?cd2 = "AList.delete ''certificate'' (AList.delete ''attributes'' cd)"
  from assms(1) obtain rec1 where
        fa: "flatten_attributes c (dict_get_default cd ''attributes'' (JObj [])) = Inr rec1"
    and c': "c' = merge_remaining
               (flatten_certificate ckey cfield rec1 (dict_get (AList.delete ''attributes'' cd) ''certificate''))
               ?cd2"
    by (auto simp: merge_client_data_def Let_def split: sum.splits)
  have d: "distinct (map fst ?cd2)" using assms(2) by (simp add: distinct_delete)
  have m: "(k, v) \<in> set ?cd2" using assms(3,4,5) by (auto simp: AList.delete_eq)
  have "k \<in> fst ` set rec1" using keys_flatten_attributes[OF fa] assms(6) by auto
  then have "k \<in> fst ` set (flatten_certificate ckey cfield rec1
                 (dict_get (AList.delete ''attributes'' cd) ''certificate''))"
    using keys_flatten_certificate by blast
  from alias_merge_remaining[OF d m this] show ?thesis unfolding c' .
qed

lemma keys_update_mono: "fst ` set al \<subseteq> fst ` set (AList.update k v al)"
  by (simp add: keys_update subset_insertI)

lemma switch_name_step_cases:
  assumes "switch_name_step api sess st = Inr (rec1, st1)"
  shows "rec1 = sess \<or> (\<exists>name. rec1 = AList.update ''switch_name'' name sess)"
  using assms
  by (auto simp: switch_name_step_def Let_def split: if_splits sum.splits)

lemma switch_name_step_keys:
  assumes "switch_name_step api sess st = Inr (rec1, st1)"
  shows "fst ` set sess \<subseteq> fst ` set rec1"
  using switch_name_step_cases[OF assms] keys_update_mono[of sess] by (elim disjE exE) simp_all

lemma switch_name_step_value:
  assumes "switch_name_step api sess st = Inr (rec1, st1)"
    and "map_of sess x = Some v" and "x \<noteq> ''switch_name''"
  shows "map_of rec1 x = Some v"
  using switch_name_step_cases[OF assms(1)] assms(2,3) by (auto simp: update_conv)

lemma switch_interface_step_cases:
  assumes "switch_interface_step api sess rec1 log = (rec2, log2)"
  shows "rec2 = rec1 \<or> (\<exists>port. rec2 = AList.update ''switch_interface'' port rec1)"
  using assms
  by (auto simp: switch_interface_step_def Let_def split: if_splits prod.splits)

lemma switch_interface_step_keys:
  assumes "switch_interface_step api sess rec1 log = (rec2, log2)"
  shows "fst ` set rec1 \<subseteq> fst ` set rec2"
  using switch_interface_step_cases[OF assms] keys_update_mono[of rec1] by (elim disjE exE) simp_all

lemma switch_interface_step_value:
  assumes "switch_interface_step api sess rec1 log = (rec2, log2)"
    and "map_of rec1 x = Some v" and "x \<noteq> ''switch_interface''"
  shows "map_of rec2 x = Some v"
  using switch_interface_step_cases[OF assms(1)] assms(2,3) by (auto simp: update_conv)

text \<open>The stages of a worker that returns.\<close>

lemma enrich_device_worker_stages:
  assumes "enrich_device_worker api (mac, sess) st = Inr (rec, st')"
  obtains rec1 cache1 log1 rec2 log2 client_data log3 where
    "switch_name_step api sess st = Inr (rec1, (cache1, log1))"
    "switch_interface_step api sess rec1 log1 = (rec2, log2)"
    "get_client_info api mac log2 = (client_data, log3)"
    "st' = (cache1, log3)"
    "(truthy client_data \<and> merge_client_data ''cert_subject'' ''subject'' rec2 client_data = Inr rec)
      \<or> (\<not> truthy client_data \<and> rec = rec2)"
  using assms
  by (auto simp: enrich_device_worker_def split: sum.splits prod.splits if_splits)

lemma enrich_device_worker_keys:
  assumes "enrich_device_worker api (mac, sess) st = Inr (rec, st')"
  shows "fst ` set sess \<subseteq> fst ` set rec"
proof -
  from assms obtain rec1 cache1 log1 rec2 log2 client_data log3 where
    1: "switch_name_step api sess st = Inr (rec1, (cache1, log1))" and
    2: "switch_interface_step api sess rec1 log1 = (rec2, log2)" and
    3: "get_client_info api mac log2 = (client_data, log3)" and
    5: "st' = (cache1, log3)" and
    4: "(truthy client_data \<and> merge_client_data ''cert_subject'' ''subject'' rec2 client_data = Inr rec)
      \<or> (\<not> truthy client_data \<and> rec = rec2)"
    by (rule enrich_device_worker_stages)
  have "fst ` set sess \<subseteq> fst ` set rec2"
    using switch_name_step_keys[OF 1] switch_interface_step_keys[OF 2] by blast
  moreover have "fst ` set rec2 \<subseteq> fst ` set rec"
    using 4 keys_merge_client_data by blast
  ultimately show ?thesis by blast
qed

lemma enrich_device_worker_value:
  assumes "enrich_device_worker api (mac, sess) st = Inr (rec, st')"
    and "map_of sess x = Some v"
    and "x \<notin> {''switch_name'', ''switch_interface'', ''cert_subject'', ''cert_expiry''}"
    and "\<not> prefix ''client_'' x"
  shows "map_of rec x = Some v"
proof -
  from assms(1) obtain rec1 cache1 log1 rec2 log2 client_data log3 where
    1: "switch_name_step api sess st = Inr (rec1, (cache1, log1))" and
    2: "switch_interface_step api sess rec1 log1 = (rec2, log2)" and
    3: "get_client_info api mac log2 = (client_data, log3)" and
    5: "st' = (cache1, log3)" and
    4: "(truthy client_data \<and> merge_client_data ''cert_subject'' ''subject'' rec2 client_data = Inr rec)
      \<or> (\<not> truthy client_data \<and> rec = rec2)"
    by (rule enrich_device_worker_stages)
  have a: "map_of rec1 x = Some v"
    using switch_name_step_value[OF 1 assms(2)] assms(3) by simp
  have b: "map_of rec2 x = Some v"
    using switch_interface_step_value[OF 2 a] assms(3) by simp
  from 4 show ?thesis
  proof
    assume "truthy client_data \<and> merge_client_data ''cert_subject'' ''subject'' rec2 client_data = Inr rec"
    then have m: "merge_client_data ''cert_subject'' ''subject'' rec2 client_data = Inr rec" by simp
    show ?thesis
      using value_merge_client_data[OF m b _ _ assms(4)] assms(3) by simp
  next
    assume "\<not> truthy client_data \<and> rec = rec2"
    with b show ?thesis by simp
  qed
qed

lemma segment_enrich_device_cases:
  assumes "segment_enrich_device api (mac, sess) log = Inr (rec, log')"
  shows "(\<exists>client_data. merge_client_data ''cert_issuer'' ''issuer'' sess client_data = Inr rec)
          \<or> rec = sess"
  using assms
  by (auto simp: segment_enrich_device_def split: prod.splits if_splits sum.splits)

lemma segment_enrich_device_keys:
  assumes "segment_enrich_device api (mac, sess) log = Inr (rec, log')"
  shows "fst ` set sess \<subseteq> fst ` set rec"
  using segment_enrich_device_cases[OF assms] keys_merge_client_data by blast

lemma segment_enrich_device_value:
  assumes "segment_enrich_device api (mac, sess) log = Inr (rec, log')"
    and "map_of sess x = Some v" and "x \<notin> {''cert_issuer'', ''cert_expiry''}"
    and "\<not> prefix ''client_'' x"
  shows "map_of rec x = Some v"
proof -
  from segment_enrich_device_cases[OF assms(1)] show ?thesis
  proof
    assume "\<exists>client_data. merge_client_data ''cert_issuer'' ''issuer'' sess client_data = Inr rec"
    then obtain cdata where m: "merge_client_data ''cert_issuer'' ''issuer'' sess cdata = Inr rec"
      by blast
    show ?thesis
      using value_merge_client_data[OF m assms(2) _ _ assms(4)] assms(3) by simp
  next
    assume "rec = sess"
    with assms(2) show ?thesis by simp
  qed
qed

text \<open>
  C4 (as amended). Every key of the base record is still a key of the enriched record,
  and a base field keeps its base value unless its name is one that the enrichment
  assigns: \<^verbatim>\<open>switch_name\<close>, \<^verbatim>\<open>switch_interface\<close>, the two certificate fields, or
  a name that begins with \<^verbatim>\<open>client_\<close> (in get-agni-clients-by-segment.py: the two
  certificate fields or a name that begins with \<^verbatim>\<open>client_\<close>). A top-level field of
  the client data whose name is already in the record is stored under the alias
  \<^verbatim>\<open>client_\<close> followed by its name.
\<close>

theorem enrichment_keeps_base_fields:
  "(enrich_device_worker api (mac, sess_data) st = Inr (rec, st') \<longrightarrow>
      fst ` set sess_data \<subseteq> fst ` set rec
      \<and> (\<forall>x v. map_of sess_data x = Some v
            \<and> x \<notin> {''switch_name'', ''switch_interface'', ''cert_subject'', ''cert_expiry''}
            \<and> \<not> prefix ''client_'' x
          \<longrightarrow> map_of rec x = Some v))
   \<and> (segment_enrich_device api (mac, sess_data) log = Inr (rec, log') \<longrightarrow>
      fst ` set sess_data \<subseteq> fst ` set rec
      \<and> (\<forall>x v. map_of sess_data x = Some v
            \<and> x \<notin> {''cert_issuer'', ''cert_expiry''}
            \<and> \<not> prefix ''client_'' x
          \<longrightarrow> map_of rec x = Some v))
   \<and> (\<forall>cert_key cert_field combined_rec client_data merged k v.
         merge_client_data cert_key cert_field combined_rec (JObj client_data) = Inr merged
         \<and> distinct (map fst client_data) \<and> (k, v) \<in> set client_data
         \<and> k \<noteq> ''attributes'' \<and> k \<noteq> ''certificate'' \<and> k \<in> fst ` set combined_rec
       \<longrightarrow> map_of merged (''client_'' @ k) = Some v)"
proof -
  have a: "fst ` set sess_data \<subseteq> fst ` set rec
      \<and> (\<forall>x v. map_of sess_data x = Some v
            \<and> x \<notin> {''switch_name'', ''switch_interface'', ''cert_subject'', ''cert_expiry''}
            \<and> \<not> prefix ''client_'' x
          \<longrightarrow> map_of rec x = Some v)"
    if w: "enrich_device_worker api (mac, sess_data) st = Inr (rec, st')"
  proof (intro conjI allI impI)
    show "fst ` set sess_data \<subseteq> fst ` set rec"
      by (rule enrich_device_worker_keys[OF w])
  next
    fix x v
    assume "map_of sess_data x = Some v
            \<and> x \<notin> {''switch_name'', ''switch_interface'', ''cert_subject'', ''cert_expiry''}
            \<and> \<not> prefix ''client_'' x"
    then show "map_of rec x = Some v"
      by (elim conjE) (rule enrich_device_worker_value[OF w])
  qed
  have b: "fst ` set sess_data \<subseteq> fst ` set rec
      \<and> (\<forall>x v. map_of sess_data x = Some v
            \<and> x \<notin> {''cert_issuer'', ''cert_expiry''}
            \<and> \<not> prefix ''client_'' x
          \<longrightarrow> map_of rec x = Some v)"
    if w: "segment_enrich_device api (mac, sess_data) log = Inr (rec, log')"
  proof (intro conjI allI impI)
    show "fst ` set sess_data \<subseteq> fst ` set rec"
      by (rule segment_enrich_device_keys[OF w])
  next
    fix x v
    assume "map_of sess_data x = Some v
            \<and> x \<notin> {''cert_issuer'', ''cert_expiry''}
            \<and> \<not> prefix ''client_'' x"
    then show "map_of rec x = Some v"
      by (elim conjE) (rule segment_enrich_device_value[OF w])
  qed
  have c: "\<forall>cert_key cert_field combined_rec client_data merged k v.
         merge_client_data cert_key cert_field combined_rec (JObj client_data) = Inr merged
         \<and> distinct (map fst client_data) \<and> (k, v) \<in> set client_data
         \<and> k \<noteq> ''attributes'' \<and> k \<noteq> ''certificate'' \<and> k \<in> fst ` set combined_rec
       \<longrightarrow> map_of merged (''client_'' @ k) = Some v"
  proof (intro allI impI)
    fix cert_key cert_field combined_rec client_data merged k v
    assume "merge_client_data cert_key cert_field combined_rec (JObj client_data) = Inr merged
         \<and> distinct (map fst client_data) \<and> (k, v) \<in> set client_data
         \<and> k \<noteq> ''attributes'' \<and> k \<noteq> ''certificate'' \<and> k \<in> fst ` set combined_rec"
    then show "map_of merged (''client_'' @ k) = Some v"
      by (elim conjE) (rule alias_merge_client_data)
  qed
  show ?thesis
  proof (intro conjI impI)
    assume w: "enrich_device_worker api (mac, sess_data) st = Inr (rec, st')"
    from a[OF w] show "fst ` set sess_data \<subseteq> fst ` set rec" by (rule conjunct1)
    from a[OF w] show "\<forall>x v. map_of sess_data x = Some v
            \<and> x \<notin> {''switch_name'', ''switch_interface'', ''cert_subject'', ''cert_expiry''}
            \<and> \<not> prefix ''client_'' x
          \<longrightarrow> map_of rec x = Some v" by (rule conjunct2)
  next
    assume w: "segment_enrich_device api (mac, sess_data) log = Inr (rec, log')"
    from b[OF w] show "fst ` set sess_data \<subseteq> fst ` set rec" by (rule conjunct1)
    from b[OF w] show "\<forall>x v. map_of sess_data x = Some v
            \<and> x \<notin> {''cert_issuer'', ''cert_expiry''}
            \<and> \<not> prefix ''client_'' x
          \<longrightarrow> map_of rec x = Some v" by (rule conjunct2)
  next
    from c show "\<forall>cert_key cert_field combined_rec client_data merged k v.
         merge_client_data cert_key cert_field combined_rec (JObj client_data) = Inr merged
         \<and> distinct (map fst client_data) \<and> (k, v) \<in> set client_data
         \<and> k \<noteq> ''attributes'' \<and> k \<noteq> ''certificate'' \<and> k \<in> fst ` set combined_rec
       \<longrightarrow> map_of merged (''client_'' @ k) = Some v" .
  qed
qed

text \<open>The definitions that evaluating an enrichment on a concrete device unfolds.\<close>

lemmas eval_defs =
  enrich_device_worker_def switch_name_step_def switch_interface_step_def
  get_nad_name_def get_session_details_def get_client_info_def get_client_details_def
  segment_enrich_device_def post_def
  merge_client_data_def flatten_attributes_def flatten_certificate_def
  merge_remaining_def merge_field_def nad_name_of_body_def port_id_of_body_def
  dict_get_def dict_get_default_def key_eq_def Let_def

lemma dev1_worker_full:
  "enrich_device_worker full_api (mac1, dev1) ([], [])
     = Inr (dev1_enriched,
            ([(JStr ''nad-1'', JStr ''sw-1'')],
             [NadGet (JStr ''nad-1''), SessionDetailsGet (JStr ''req-123''), ClientGet mac1]))"
  by (simp add: eval_defs full_api_def dev1_def mac1_def dev1_enriched_def)

lemma dev1_segment_full:
  "segment_enrich_device full_api (mac1, dev1) [] = Inr (dev1_segment_enriched, [ClientGet mac1])"
  by (simp add: eval_defs full_api_def dev1_def mac1_def dev1_segment_enriched_def)

text \<open>
  C4 as stated fails: a base record that has a \<^verbatim>\<open>switch_name\<close> field and a
  \<^verbatim>\<open>nadID\<close> loses the base value of \<^verbatim>\<open>switch_name\<close>, which the worker assigns
  from the switch lookup without a collision test.
\<close>

theorem enrichment_overwrites_switch_name:
  "map_of dev1 ''switch_name'' = Some (JStr ''edge-1'')
   \<and> enrich_device_worker full_api (mac1, dev1) ([], [])
       = Inr (dev1_enriched,
              ([(JStr ''nad-1'', JStr ''sw-1'')],
               [NadGet (JStr ''nad-1''), SessionDetailsGet (JStr ''req-123''), ClientGet mac1]))
   \<and> map_of dev1_enriched ''switch_name'' = Some (JStr ''sw-1'')"
  by (simp add: eval_defs full_api_def dev1_def mac1_def dev1_enriched_def)

theorem enrichment_keeps_base_fields_witness:
  "enrich_device_worker full_api (mac1, dev1) ([], [])
       = Inr (dev1_enriched,
              ([(JStr ''nad-1'', JStr ''sw-1'')],
               [NadGet (JStr ''nad-1''), SessionDetailsGet (JStr ''req-123''), ClientGet mac1]))
   \<and> fst ` set dev1 \<subseteq> fst ` set dev1_enriched
   \<and> map_of dev1 ''ip'' = Some (JStr ''10.0.0.2'')
   \<and> map_of dev1_enriched ''ip'' = Some (JStr ''10.0.0.2'')
   \<and> segment_enrich_device full_api (mac1, dev1) [] = Inr (dev1_segment_enriched, [ClientGet mac1])
   \<and> fst ` set dev1 \<subseteq> fst ` set dev1_segment_enriched
   \<and> map_of dev1_segment_enriched ''switch_name'' = Some (JStr ''edge-1'')
   \<and> merge_client_data ''cert_subject'' ''subject'' dev1
         (JObj [(''mac'', mac1), (''description'', JStr ''laptop'')])
       = Inr (dev1 @ [(''client_mac'', mac1), (''description'', JStr ''laptop'')])
   \<and> map_of (dev1 @ [(''client_mac'', mac1), (''description'', JStr ''laptop'')])
         (''client_'' @ ''mac'') = Some mac1"
proof -
  note t = enrichment_keeps_base_fields[of full_api mac1 dev1 "([], [])" dev1_enriched
      "([(JStr ''nad-1'', JStr ''sw-1'')],
        [NadGet (JStr ''nad-1''), SessionDetailsGet (JStr ''req-123''), ClientGet mac1])"
      "[]" "[ClientGet mac1]"]
  note u = enrichment_keeps_base_fields[of full_api mac1 dev1 "([], [])" dev1_segment_enriched
      "([], [])" "[]" "[ClientGet mac1]"]
  have w: "enrich_device_worker full_api (mac1, dev1) ([], [])
       = Inr (dev1_enriched,
              ([(JStr ''nad-1'', JStr ''sw-1'')],
               [NadGet (JStr ''nad-1''), SessionDetailsGet (JStr ''req-123''), ClientGet mac1]))"
    by (rule dev1_worker_full)
  have s: "segment_enrich_device full_api (mac1, dev1) [] = Inr (dev1_segment_enriched, [ClientGet mac1])"
    by (rule dev1_segment_full)
  have ip: "map_of dev1 ''ip'' = Some (JStr ''10.0.0.2'')
      \<and> ''ip'' \<notin> {''switch_name'', ''switch_interface'', ''cert_subject'', ''cert_expiry''}
      \<and> \<not> prefix ''client_'' ''ip''"
    by (simp add: dev1_def)
  have sn: "map_of dev1 ''switch_name'' = Some (JStr ''edge-1'')
      \<and> ''switch_name'' \<notin> {''cert_issuer'', ''cert_expiry''}
      \<and> \<not> prefix ''client_'' ''switch_name''"
    by (simp add: dev1_def)
  have m: "merge_client_data ''cert_subject'' ''subject'' dev1
         (JObj [(''mac'', mac1), (''description'', JStr ''laptop'')])
       = Inr (dev1 @ [(''client_mac'', mac1), (''description'', JStr ''laptop'')])"
    by (simp add: eval_defs dev1_def)
  have mh: "merge_client_data ''cert_subject'' ''subject'' dev1
         (JObj [(''mac'', mac1), (''description'', JStr ''laptop'')])
       = Inr (dev1 @ [(''client_mac'', mac1), (''description'', JStr ''laptop'')])
      \<and> distinct (map fst [(''mac'', mac1), (''description'', JStr ''laptop'')])
      \<and> (''mac'', mac1) \<in> set [(''mac'', mac1), (''description'', JStr ''laptop'')]
      \<and> ''mac'' \<noteq> ''attributes'' \<and> ''mac'' \<noteq> ''certificate'' \<and> ''mac'' \<in> fst ` set dev1"
    using m by (simp add: dev1_def)
  note tw = mp[OF conjunct1[OF t] w]
  note us = mp[OF conjunct1[OF conjunct2[OF u]] s]
  have c1: "fst ` set dev1 \<subseteq> fst ` set dev1_enriched" by (rule conjunct1[OF tw])
  have c2: "map_of dev1_enriched ''ip'' = Some (JStr ''10.0.0.2'')"
    by (rule mp[OF spec[OF spec[OF conjunct2[OF tw]]] ip])
  have c3: "fst ` set dev1 \<subseteq> fst ` set dev1_segment_enriched" by (rule conjunct1[OF us])
  have c4: "map_of dev1_segment_enriched ''switch_name'' = Some (JStr ''edge-1'')"
    by (rule mp[OF spec[OF spec[OF conjunct2[OF us]]] sn])
  have c5: "map_of (dev1 @ [(''client_mac'', mac1), (''description'', JStr ''laptop'')])
         (''client_'' @ ''mac'') = Some mac1"
    by (rule mp[OF spec[OF spec[OF spec[OF spec[OF spec[OF spec[OF spec[OF
          conjunct2[OF conjunct2[OF t]]]]]]]]] mh])
  show ?thesis
    by (intro conjI) (rule w c1 conjunct1[OF ip] c2 s c3 c4 m c5)+
qed

subsection \<open>The batch\<close>

lemma executor_map_positional:
  "executor_map worker items st = Inr (results, st') \<Longrightarrow>
     length results = length items
     \<and> (\<forall>i<length items. \<exists>s s'. worker (items ! i) s = Inr (results ! i, s'))"
proof (induction items arbitrary: st results)
  case Nil
  then show ?case by simp
next
  case (Cons item items)
  from Cons.prems obtain res st1 rest where
    w: "worker item st = Inr (res, st1)" and
    r: "executor_map worker items st1 = Inr (rest, st')" and
    e: "results = res # rest"
    by (auto split: sum.splits prod.splits)
  from Cons.IH[OF r] have len: "length rest = length items"
    and pos: "\<forall>i<length items. \<exists>s s'. worker (items ! i) s = Inr (rest ! i, s')"
    by simp_all
  have "\<exists>s s'. worker ((item # items) ! i) s = Inr (results ! i, s')"
    if "i < length (item # items)" for i
  proof (cases i)
    case 0
    then show ?thesis using w e by auto
  next
    case (Suc j)
    then have "j < length items" using that by simp
    then show ?thesis using pos Suc e by simp
  qed
  then show ?case using len e by simp
qed

text \<open>
  C10. When enrichment is enabled and returns, the enriched output has exactly as
  many records as the UniqueDeviceMap has entries, and the record at each position is
  the worker's result for the entry at that position of the map's iteration order:
  it has all the keys of that entry's record and its \<^verbatim>\<open>mac\<close>. The same holds for
  the sequential loop of get-agni-clients-by-segment.py.
\<close>

theorem enriched_records_follow_map_order:
  "(final_records api True unique_devs st = Inr (recs, st') \<longrightarrow>
      length recs = length unique_devs
      \<and> (\<forall>i<length unique_devs.
            (\<exists>s s'. enrich_device_worker api (unique_devs ! i) s = Inr (recs ! i, s'))
            \<and> fst ` set (snd (unique_devs ! i)) \<subseteq> fst ` set (recs ! i)
            \<and> (\<forall>v. map_of (snd (unique_devs ! i)) ''mac'' = Some v
                  \<longrightarrow> map_of (recs ! i) ''mac'' = Some v)))
   \<and> (segment_final_records api True unique_devs log = Inr (recs, log') \<longrightarrow>
      length recs = length unique_devs
      \<and> (\<forall>i<length unique_devs.
            (\<exists>l l'. segment_enrich_device api (unique_devs ! i) l = Inr (recs ! i, l'))
            \<and> fst ` set (snd (unique_devs ! i)) \<subseteq> fst ` set (recs ! i)
            \<and> (\<forall>v. map_of (snd (unique_devs ! i)) ''mac'' = Some v
                  \<longrightarrow> map_of (recs ! i) ''mac'' = Some v)))"
proof (intro conjI impI)
  assume f: "final_records api True unique_devs st = Inr (recs, st')"
  have em: "executor_map (enrich_device_worker api) unique_devs st = Inr (recs, st')"
  proof (cases "unique_devs = []")
    case True
    with f show ?thesis by (simp add: final_records_def)
  next
    case False
    with f show ?thesis by (simp add: final_records_def)
  qed
  note p = executor_map_positional[OF em]
  from p show "length recs = length unique_devs" by (rule conjunct1)
  show "\<forall>i<length unique_devs.
            (\<exists>s s'. enrich_device_worker api (unique_devs ! i) s = Inr (recs ! i, s'))
            \<and> fst ` set (snd (unique_devs ! i)) \<subseteq> fst ` set (recs ! i)
            \<and> (\<forall>v. map_of (snd (unique_devs ! i)) ''mac'' = Some v
                  \<longrightarrow> map_of (recs ! i) ''mac'' = Some v)"
  proof (intro allI impI)
    fix i assume i: "i < length unique_devs"
    obtain mac sess where it: "unique_devs ! i = (mac, sess)" by (cases "unique_devs ! i")
    from conjunct2[OF p] i obtain s s' where
      w: "enrich_device_worker api (unique_devs ! i) s = Inr (recs ! i, s')" by blast
    have w': "enrich_device_worker api (mac, sess) s = Inr (recs ! i, s')" using w it by simp
    have k: "fst ` set sess \<subseteq> fst ` set (recs ! i)" by (rule enrich_device_worker_keys[OF w'])
    have m: "map_of (recs ! i) ''mac'' = Some v" if "map_of sess ''mac'' = Some v" for v
      by (rule enrich_device_worker_value[OF w' that]) (simp_all add: prefix_def)
    show "(\<exists>s s'. enrich_device_worker api (unique_devs ! i) s = Inr (recs ! i, s'))
            \<and> fst ` set (snd (unique_devs ! i)) \<subseteq> fst ` set (recs ! i)
            \<and> (\<forall>v. map_of (snd (unique_devs ! i)) ''mac'' = Some v
                  \<longrightarrow> map_of (recs ! i) ''mac'' = Some v)"
    proof (intro conjI allI impI)
      from w show "\<exists>s s'. enrich_device_worker api (unique_devs ! i) s = Inr (recs ! i, s')"
        by (intro exI)
      from k show "fst ` set (snd (unique_devs ! i)) \<subseteq> fst ` set (recs ! i)"
        unfolding it by simp
      fix v assume "map_of (snd (unique_devs ! i)) ''mac'' = Some v"
      then have "map_of sess ''mac'' = Some v" unfolding it by simp
      then show "map_of (recs ! i) ''mac'' = Some v" by (rule m)
    qed
  qed
next
  assume f: "segment_final_records api True unique_devs log = Inr (recs, log')"
  have em: "executor_map (segment_enrich_device api) unique_devs log = Inr (recs, log')"
  proof (cases "unique_devs = []")
    case True
    with f show ?thesis by (simp add: segment_final_records_def)
  next
    case False
    with f show ?thesis by (simp add: segment_final_records_def)
  qed
  note p = executor_map_positional[OF em]
  from p show "length recs = length unique_devs" by (rule conjunct1)
  show "\<forall>i<length unique_devs.
            (\<exists>l l'. segment_enrich_device api (unique_devs ! i) l = Inr (recs ! i, l'))
            \<and> fst ` set (snd (unique_devs ! i)) \<subseteq> fst ` set (recs ! i)
            \<and> (\<forall>v. map_of (snd (unique_devs ! i)) ''mac'' = Some v
                  \<longrightarrow> map_of (recs ! i) ''mac'' = Some v)"
  proof (intro allI impI)
    fix i assume i: "i < length unique_devs"
    obtain mac sess where it: "unique_devs ! i = (mac, sess)" by (cases "unique_devs ! i")
    from conjunct2[OF p] i obtain l l' where
      w: "segment_enrich_device api (unique_devs ! i) l = Inr (recs ! i, l')" by blast
    have w': "segment_enrich_device api (mac, sess) l = Inr (recs ! i, l')" using w it by simp
    have k: "fst ` set sess \<subseteq> fst ` set (recs ! i)" by (rule segment_enrich_device_keys[OF w'])
    have m: "map_of (recs ! i) ''mac'' = Some v" if "map_of sess ''mac'' = Some v" for v
      by (rule segment_enrich_device_value[OF w' that]) (simp_all add: prefix_def)
    show "(\<exists>l l'. segment_enrich_device api (unique_devs ! i) l = Inr (recs ! i, l'))
            \<and> fst ` set (snd (unique_devs ! i)) \<subseteq> fst ` set (recs ! i)
            \<and> (\<forall>v. map_of (snd (unique_devs ! i)) ''mac'' = Some v
                  \<longrightarrow> map_of (recs ! i) ''mac'' = Some v)"
    proof (intro conjI allI impI)
      from w show "\<exists>l l'. segment_enrich_device api (unique_devs ! i) l = Inr (recs ! i, l')"
        by (intro exI)
      from k show "fst ` set (snd (unique_devs ! i)) \<subseteq> fst ` set (recs ! i)"
        unfolding it by simp
      fix v assume "map_of (snd (unique_devs ! i)) ''mac'' = Some v"
      then have "map_of sess ''mac'' = Some v" unfolding it by simp
      then show "map_of (recs ! i) ''mac'' = Some v" by (rule m)
    qed
  qed
qed

lemma devs_final_full:
  "final_records full_api True [(mac1, dev1), (mac2, dev2)] ([], [])
     = Inr ([dev1_enriched, dev2_enriched],
            ([(JStr ''nad-1'', JStr ''sw-1'')],
             [NadGet (JStr ''nad-1''), SessionDetailsGet (JStr ''req-123''),
              ClientGet mac1, ClientGet mac2]))"
  by (simp add: final_records_def eval_defs full_api_def dev1_def mac1_def dev1_enriched_def
      dev2_def mac2_def dev2_enriched_def)

lemma devs_segment_final_full:
  "segment_final_records full_api True [(mac1, dev1), (mac2, dev2)] []
     = Inr ([dev1_segment_enriched, dev2_segment_enriched], [ClientGet mac1, ClientGet mac2])"
  by (simp add: segment_final_records_def eval_defs full_api_def dev1_def mac1_def
      dev1_segment_enriched_def dev2_def mac2_def dev2_segment_enriched_def)


theorem enriched_records_follow_map_order_witness:
  "final_records full_api True [(mac1, dev1), (mac2, dev2)] ([], [])
     = Inr ([dev1_enriched, dev2_enriched],
            ([(JStr ''nad-1'', JStr ''sw-1'')],
             [NadGet (JStr ''nad-1''), SessionDetailsGet (JStr ''req-123''),
              ClientGet mac1, ClientGet mac2]))
   \<and> length [dev1_enriched, dev2_enriched] = length [(mac1, dev1), (mac2, dev2)]
   \<and> (1::nat) < length [(mac1, dev1), (mac2, dev2)]
   \<and> map_of (snd ([(mac1, dev1), (mac2, dev2)] ! 1)) ''mac'' = Some mac2
   \<and> map_of ([dev1_enriched, dev2_enriched] ! 1) ''mac'' = Some mac2
   \<and> segment_final_records full_api True [(mac1, dev1), (mac2, dev2)] []
       = Inr ([dev1_segment_enriched, dev2_segment_enriched], [ClientGet mac1, ClientGet mac2])
   \<and> map_of ([dev1_segment_enriched, dev2_segment_enriched] ! 1) ''mac'' = Some mac2"
proof -
  note t = enriched_records_follow_map_order[of full_api "[(mac1, dev1), (mac2, dev2)]" "([], [])"
      "[dev1_enriched, dev2_enriched]"
      "([(JStr ''nad-1'', JStr ''sw-1'')],
        [NadGet (JStr ''nad-1''), SessionDetailsGet (JStr ''req-123''), ClientGet mac1, ClientGet mac2])"
      "[]" "[ClientGet mac1, ClientGet mac2]"]
  note u = enriched_records_follow_map_order[of full_api "[(mac1, dev1), (mac2, dev2)]" "([], [])"
      "[dev1_segment_enriched, dev2_segment_enriched]" "([], [])"
      "[]" "[ClientGet mac1, ClientGet mac2]"]
  note f = devs_final_full
  note g = devs_segment_final_full
  have i: "(1::nat) < length [(mac1, dev1), (mac2, dev2)]" by simp
  have m: "map_of (snd ([(mac1, dev1), (mac2, dev2)] ! 1)) ''mac'' = Some mac2"
    by (simp add: dev2_def mac2_def)
  note tf = mp[OF conjunct1[OF t] f]
  note ug = mp[OF conjunct2[OF u] g]
  have c1: "length [dev1_enriched, dev2_enriched] = length [(mac1, dev1), (mac2, dev2)]"
    by (rule conjunct1[OF tf])
  note ti = mp[OF spec[OF conjunct2[OF tf]] i]
  note ui = mp[OF spec[OF conjunct2[OF ug]] i]
  have c2: "map_of ([dev1_enriched, dev2_enriched] ! 1) ''mac'' = Some mac2"
    by (rule mp[OF spec[OF conjunct2[OF conjunct2[OF ti]]] m])
  have c3: "map_of ([dev1_segment_enriched, dev2_segment_enriched] ! 1) ''mac'' = Some mac2"
    by (rule mp[OF spec[OF conjunct2[OF conjunct2[OF ui]]] m])
  show ?thesis
    by (intro conjI) (rule f c1 i m c2 g c3)+
qed

subsection \<open>Failed lookups\<close>

lemma lookup_failed_defaults:
  "lookup_failed resp \<Longrightarrow>
     fetch_nad_name resp = None \<and> session_details_value resp = JStr []
     \<and> client_data_value resp = JObj []"
  by (cases resp rule: lookup_failed.cases) auto

lemma get_nad_name_total:
  "\<not> truthy nad_id \<or> hashable nad_id \<Longrightarrow> \<exists>name st1. get_nad_name api nad_id st = Inr (name, st1)"
  by (cases st) (auto simp: get_nad_name_def post_def split: option.splits)

lemma switch_name_step_total:
  assumes "\<not> truthy (dict_get sess ''nadID'') \<or> hashable (dict_get sess ''nadID'')"
  shows "\<exists>rec1 st1. switch_name_step api sess st = Inr (rec1, st1)"
proof (cases "truthy (dict_get sess ''nadID'')")
  case False
  then show ?thesis by (simp add: switch_name_step_def)
next
  case True
  from get_nad_name_total[OF assms, of api st] obtain name st1
    where "get_nad_name api (dict_get sess ''nadID'') st = Inr (name, st1)" by blast
  with True show ?thesis by (simp add: switch_name_step_def)
qed

lemma client_lookup_failed:
  assumes "\<forall>n. lookup_failed (api (ClientGet mac) n)"
  shows "get_client_info api mac log = (JObj [], log @ [ClientGet mac])"
    and "get_client_details api mac log = (JObj [], log @ [ClientGet mac])"
  using lookup_failed_defaults[of "api (ClientGet mac) (length log)"] assms
  by (simp_all add: get_client_info_def get_client_details_def post_def)

lemma worker_client_failed:
  assumes nad: "\<not> truthy (dict_get sess ''nadID'') \<or> hashable (dict_get sess ''nadID'')"
    and cf: "\<forall>n. lookup_failed (api (ClientGet mac) n)"
  shows "\<exists>rec st'. enrich_device_worker api (mac, sess) st = Inr (rec, st')
           \<and> fst ` set rec \<subseteq> fst ` set sess \<union> {''switch_name'', ''switch_interface''}"
proof -
  from switch_name_step_total[OF nad, of api st] obtain rec1 st1
    where s1: "switch_name_step api sess st = Inr (rec1, st1)" by blast
  obtain cache1 log1 where st1: "st1 = (cache1, log1)" by (cases st1)
  obtain rec2 log2 where s2: "switch_interface_step api sess rec1 log1 = (rec2, log2)"
    by (cases "switch_interface_step api sess rec1 log1")
  have s3: "get_client_info api mac log2 = (JObj [], log2 @ [ClientGet mac])"
    by (rule client_lookup_failed(1)[where api=api and mac=mac, OF cf])
  have w: "enrich_device_worker api (mac, sess) st = Inr (rec2, (cache1, log2 @ [ClientGet mac]))"
    by (simp add: enrich_device_worker_def s1 st1 s2 s3)
  have k1: "fst ` set rec1 \<subseteq> insert ''switch_name'' (fst ` set sess)"
    using switch_name_step_cases[OF s1] keys_update[of "''switch_name''" _ sess]
    by (elim disjE exE) (simp_all add: subset_insertI)
  have k2: "fst ` set rec2 \<subseteq> insert ''switch_interface'' (fst ` set rec1)"
    using switch_interface_step_cases[OF s2] keys_update[of "''switch_interface''" _ rec1]
    by (elim disjE exE) (simp_all add: subset_insertI)
  have "fst ` set rec2 \<subseteq> fst ` set sess \<union> {''switch_name'', ''switch_interface''}"
  proof
    fix x assume "x \<in> fst ` set rec2"
    with k2 have "x = ''switch_interface'' \<or> x \<in> fst ` set rec1" by (meson insertE subsetD)
    with k1 have "x = ''switch_interface'' \<or> x = ''switch_name'' \<or> x \<in> fst ` set sess"
      by (meson insertE subsetD)
    then show "x \<in> fst ` set sess \<union> {''switch_name'', ''switch_interface''}"
      by (elim disjE) (simp_all only: Un_iff insert_iff simp_thms)
  qed
  with w show ?thesis by (intro exI conjI)
qed

lemma worker_merge_value:
  assumes 4: "(truthy client_data \<and> merge_client_data ''cert_subject'' ''subject'' rec2 client_data = Inr rec)
      \<or> (\<not> truthy client_data \<and> rec = rec2)"
    and v: "map_of rec2 x = Some v"
    and x: "x \<noteq> ''cert_subject''" "x \<noteq> ''cert_expiry''" "\<not> prefix ''client_'' x"
  shows "map_of rec x = Some v"
  using 4
proof
  assume "truthy client_data \<and> merge_client_data ''cert_subject'' ''subject'' rec2 client_data = Inr rec"
  then have m: "merge_client_data ''cert_subject'' ''subject'' rec2 client_data = Inr rec" by simp
  show ?thesis by (rule value_merge_client_data[OF m v x])
next
  assume "\<not> truthy client_data \<and> rec = rec2"
  with v show ?thesis by simp
qed

lemma worker_switch_name_unknown:
  assumes w: "enrich_device_worker api (mac, sess) (cache, log) = Inr (rec, st')"
    and t: "truthy (dict_get sess ''nadID'')"
    and n: "vdict_lookup cache (dict_get sess ''nadID'') = None"
    and f: "lookup_failed (api (NadGet (dict_get sess ''nadID'')) (length log))"
  shows "map_of rec ''switch_name'' = Some (JStr ''Unknown'')"
proof -
  from w obtain rec1 cache1 log1 rec2 log2 client_data log3 where
    1: "switch_name_step api sess (cache, log) = Inr (rec1, (cache1, log1))" and
    2: "switch_interface_step api sess rec1 log1 = (rec2, log2)" and
    3: "get_client_info api mac log2 = (client_data, log3)" and
    5: "st' = (cache1, log3)" and
    4: "(truthy client_data \<and> merge_client_data ''cert_subject'' ''subject'' rec2 client_data = Inr rec)
      \<or> (\<not> truthy client_data \<and> rec = rec2)"
    by (rule enrich_device_worker_stages)
  have fn: "fetch_nad_name (api (NadGet (dict_get sess ''nadID'')) (length log)) = None"
    using lookup_failed_defaults[OF f] by simp
  have "rec1 = AList.update ''switch_name'' (JStr ''Unknown'') sess"
    using 1 t n fn
    by (auto simp: switch_name_step_def get_nad_name_def post_def Let_def split: if_splits sum.splits)
  then have a: "map_of rec1 ''switch_name'' = Some (JStr ''Unknown'')"
    by (simp add: update_conv)
  have b: "map_of rec2 ''switch_name'' = Some (JStr ''Unknown'')"
    by (rule switch_interface_step_value[OF 2 a]) simp
  show ?thesis
    by (rule worker_merge_value[OF 4 b]) (simp_all add: prefix_def)
qed

lemma worker_switch_interface_empty:
  assumes w: "enrich_device_worker api (mac, sess) st = Inr (rec, st')"
    and t: "truthy (dict_get sess ''authReqID'')"
    and f: "\<forall>n. lookup_failed (api (SessionDetailsGet (dict_get sess ''authReqID'')) n)"
  shows "map_of rec ''switch_interface'' = Some (JStr [])"
proof -
  from w obtain rec1 cache1 log1 rec2 log2 client_data log3 where
    1: "switch_name_step api sess st = Inr (rec1, (cache1, log1))" and
    2: "switch_interface_step api sess rec1 log1 = (rec2, log2)" and
    3: "get_client_info api mac log2 = (client_data, log3)" and
    5: "st' = (cache1, log3)" and
    4: "(truthy client_data \<and> merge_client_data ''cert_subject'' ''subject'' rec2 client_data = Inr rec)
      \<or> (\<not> truthy client_data \<and> rec = rec2)"
    by (rule enrich_device_worker_stages)
  have "session_details_value (api (SessionDetailsGet (dict_get sess ''authReqID'')) (length log1)) = JStr []"
    using lookup_failed_defaults f by blast
  then have "rec2 = AList.update ''switch_interface'' (JStr []) rec1"
    using 2 t by (simp add: switch_interface_step_def get_session_details_def post_def)
  then have b: "map_of rec2 ''switch_interface'' = Some (JStr [])"
    by (simp add: update_conv)
  show ?thesis
    by (rule worker_merge_value[OF 4 b]) (simp_all add: prefix_def)
qed

lemma executor_map_total:
  "\<forall>item\<in>set items. \<forall>s. \<exists>r s'. worker item s = Inr (r, s') \<Longrightarrow>
     \<exists>rs s'. executor_map worker items st = Inr (rs, s') \<and> length rs = length items"
proof (induction items arbitrary: st)
  case Nil
  then show ?case by simp
next
  case (Cons item items)
  from Cons.prems obtain r s1 where w: "worker item st = Inr (r, s1)" by force
  from Cons.prems have "\<forall>item\<in>set items. \<forall>s. \<exists>r s'. worker item s = Inr (r, s')" by simp
  from Cons.IH[OF this, of s1] obtain rs s' where
    "executor_map worker items s1 = Inr (rs, s')" "length rs = length items" by blast
  with w show ?case by simp
qed

lemma segment_client_failed:
  assumes "\<forall>n. lookup_failed (api (ClientGet mac) n)"
  shows "segment_enrich_device api (mac, sess) log = Inr (sess, log @ [ClientGet mac])"
  by (simp add: segment_enrich_device_def client_lookup_failed(2)[where api=api and mac=mac, OF assms])

lemma segment_batch_client_failed:
  "\<forall>m n. lookup_failed (api (ClientGet m) n) \<Longrightarrow>
     \<exists>log'. executor_map (segment_enrich_device api) ud log = Inr (map snd ud, log')"
proof (induction ud arbitrary: log)
  case Nil
  then show ?case by simp
next
  case (Cons item ud)
  obtain mac sess where it: "item = (mac, sess)" by (cases item)
  have s: "segment_enrich_device api (mac, sess) log = Inr (sess, log @ [ClientGet mac])"
    using Cons.prems by (intro segment_client_failed) simp
  from Cons.IH[OF Cons.prems, of "log @ [ClientGet mac]"] obtain log' where
    "executor_map (segment_enrich_device api) ud (log @ [ClientGet mac]) = Inr (map snd ud, log')"
    by blast
  with s it show ?case by simp
qed


lemma lookup_failed_mergeable: "lookup_failed resp \<Longrightarrow> mergeable (client_data_value resp)"
  using lookup_failed_defaults[of resp] by (simp add: mergeable_def dict_get_default_def)

lemma flatten_attributes_total:
  assumes "case a of JObj kvs \<Rightarrow> True | v \<Rightarrow> \<not> truthy v"
  shows "\<exists>rec1. flatten_attributes c a = Inr rec1"
  using assms by (cases a) (auto simp: flatten_attributes_def)

lemma merge_client_data_total:
  assumes "mergeable client_data" and "truthy client_data"
  shows "\<exists>rec. merge_client_data cert_key cert_field c client_data = Inr rec"
proof -
  from assms obtain cd where cd: "client_data = JObj cd"
    by (cases client_data) (auto simp: mergeable_def)
  from assms(1) have "case dict_get_default cd ''attributes'' (JObj []) of
      JObj kvs \<Rightarrow> True | v \<Rightarrow> \<not> truthy v"
    by (simp add: mergeable_def cd)
  from flatten_attributes_total[OF this, of c] obtain rec1 where
    "flatten_attributes c (dict_get_default cd ''attributes'' (JObj [])) = Inr rec1" by blast
  then show ?thesis by (simp add: merge_client_data_def cd Let_def)
qed

lemma worker_total:
  assumes nad: "\<not> truthy (dict_get sess ''nadID'') \<or> hashable (dict_get sess ''nadID'')"
    and mg: "\<forall>n. mergeable (client_data_value (api (ClientGet mac) n))"
  shows "\<exists>rec st'. enrich_device_worker api (mac, sess) st = Inr (rec, st')"
proof -
  from switch_name_step_total[OF nad, of api st] obtain rec1 st1
    where s1: "switch_name_step api sess st = Inr (rec1, st1)" by blast
  obtain cache1 log1 where st1: "st1 = (cache1, log1)" by (cases st1)
  obtain rec2 log2 where s2: "switch_interface_step api sess rec1 log1 = (rec2, log2)"
    by (cases "switch_interface_step api sess rec1 log1")
  let ?cd = "client_data_value (api (ClientGet mac) (length log2))"
  have s3: "get_client_info api mac log2 = (?cd, log2 @ [ClientGet mac])"
    by (simp add: get_client_info_def post_def)
  have m: "mergeable ?cd" using mg by simp
  show ?thesis
  proof (cases "truthy ?cd")
    case False
    then show ?thesis by (simp add: enrich_device_worker_def s1 st1 s2 s3)
  next
    case True
    from merge_client_data_total[OF m True, of "''cert_subject''" "''subject''" rec2]
    obtain rec3 where "merge_client_data ''cert_subject'' ''subject'' rec2 ?cd = Inr rec3" by blast
    with True show ?thesis by (simp add: enrich_device_worker_def s1 st1 s2 s3)
  qed
qed

lemma segment_enrich_total:
  assumes mg: "\<forall>n. mergeable (client_data_value (api (ClientGet mac) n))"
  shows "\<exists>rec log'. segment_enrich_device api (mac, sess) log = Inr (rec, log')"
proof -
  let ?cd = "client_data_value (api (ClientGet mac) (length log))"
  have s3: "get_client_details api mac log = (?cd, log @ [ClientGet mac])"
    by (simp add: get_client_details_def post_def)
  have m: "mergeable ?cd" using mg by simp
  show ?thesis
  proof (cases "truthy ?cd")
    case False
    then show ?thesis by (simp add: segment_enrich_device_def s3)
  next
    case True
    from merge_client_data_total[OF m True, of "''cert_issuer''" "''issuer''" sess]
    obtain rec3 where "merge_client_data ''cert_issuer'' ''issuer'' sess ?cd = Inr rec3" by blast
    with True show ?thesis by (simp add: segment_enrich_device_def s3)
  qed
qed

lemma worker_failed_lookup_fields:
  assumes nad: "\<not> truthy (dict_get sess ''nadID'') \<or> hashable (dict_get sess ''nadID'')"
    and mg: "\<forall>n. mergeable (client_data_value (api (ClientGet mac) n))"
  shows "\<exists>rec st'. enrich_device_worker api (mac, sess) (cache, log) = Inr (rec, st')
      \<and> (truthy (dict_get sess ''nadID'')
          \<and> vdict_lookup cache (dict_get sess ''nadID'') = None
          \<and> lookup_failed (api (NadGet (dict_get sess ''nadID'')) (length log))
         \<longrightarrow> map_of rec ''switch_name'' = Some (JStr ''Unknown''))
      \<and> (truthy (dict_get sess ''authReqID'')
          \<and> (\<forall>n. lookup_failed (api (SessionDetailsGet (dict_get sess ''authReqID'')) n))
         \<longrightarrow> map_of rec ''switch_interface'' = Some (JStr []))
      \<and> ((\<forall>n. lookup_failed (api (ClientGet mac) n))
         \<longrightarrow> fst ` set rec \<subseteq> fst ` set sess \<union> {''switch_name'', ''switch_interface''})"
proof -
  from worker_total[where api=api and mac=mac and sess=sess and st="(cache, log)", OF nad mg]
  obtain rec st'
    where w: "enrich_device_worker api (mac, sess) (cache, log) = Inr (rec, st')" by blast
  have a: "map_of rec ''switch_name'' = Some (JStr ''Unknown'')"
    if "truthy (dict_get sess ''nadID'')
          \<and> vdict_lookup cache (dict_get sess ''nadID'') = None
          \<and> lookup_failed (api (NadGet (dict_get sess ''nadID'')) (length log))"
    using that by (elim conjE) (rule worker_switch_name_unknown[OF w])
  have b: "map_of rec ''switch_interface'' = Some (JStr [])"
    if "truthy (dict_get sess ''authReqID'')
          \<and> (\<forall>n. lookup_failed (api (SessionDetailsGet (dict_get sess ''authReqID'')) n))"
    using that by (elim conjE) (rule worker_switch_interface_empty[OF w])
  have c: "fst ` set rec \<subseteq> fst ` set sess \<union> {''switch_name'', ''switch_interface''}"
    if cf: "\<forall>n. lookup_failed (api (ClientGet mac) n)"
  proof -
    from worker_client_failed[where api=api and mac=mac and sess=sess and st="(cache, log)", OF nad cf]
    obtain rec2 st2 where
      w2: "enrich_device_worker api (mac, sess) (cache, log) = Inr (rec2, st2)" and
      k: "fst ` set rec2 \<subseteq> fst ` set sess \<union> {''switch_name'', ''switch_interface''}"
      by (elim exE conjE)
    from w w2 have "rec2 = rec" by simp
    with k show ?thesis by simp
  qed
  have "enrich_device_worker api (mac, sess) (cache, log) = Inr (rec, st')
      \<and> (truthy (dict_get sess ''nadID'')
          \<and> vdict_lookup cache (dict_get sess ''nadID'') = None
          \<and> lookup_failed (api (NadGet (dict_get sess ''nadID'')) (length log))
         \<longrightarrow> map_of rec ''switch_name'' = Some (JStr ''Unknown''))
      \<and> (truthy (dict_get sess ''authReqID'')
          \<and> (\<forall>n. lookup_failed (api (SessionDetailsGet (dict_get sess ''authReqID'')) n))
         \<longrightarrow> map_of rec ''switch_interface'' = Some (JStr []))
      \<and> ((\<forall>n. lookup_failed (api (ClientGet mac) n))
         \<longrightarrow> fst ` set rec \<subseteq> fst ` set sess \<union> {''switch_name'', ''switch_interface''})"
  proof (intro conjI impI)
    show "enrich_device_worker api (mac, sess) (cache, log) = Inr (rec, st')" by (rule w)
  next
    assume "truthy (dict_get sess ''nadID'')
          \<and> vdict_lookup cache (dict_get sess ''nadID'') = None
          \<and> lookup_failed (api (NadGet (dict_get sess ''nadID'')) (length log))"
    then show "map_of rec ''switch_name'' = Some (JStr ''Unknown'')" by (rule a)
  next
    assume "truthy (dict_get sess ''authReqID'')
          \<and> (\<forall>n. lookup_failed (api (SessionDetailsGet (dict_get sess ''authReqID'')) n))"
    then show "map_of rec ''switch_interface'' = Some (JStr [])" by (rule b)
  next
    assume "\<forall>n. lookup_failed (api (ClientGet mac) n)"
    then show "fst ` set rec \<subseteq> fst ` set sess \<union> {''switch_name'', ''switch_interface''}"
      by (rule c)
  qed
  then show ?thesis by - (intro exI, assumption)
qed

text \<open>
  C7 (as amended). A lookup that fails yields a default and no exception: no name
  (the switch name becomes the placeholder \<^verbatim>\<open>"Unknown"\<close>), the empty string for the
  interface, the empty dictionary for the client identity. For every device whose
  \<^verbatim>\<open>nadID\<close> is falsy or hashable and whose identity data, whenever that lookup
  answers, is falsy or a dictionary with absent, falsy or dictionary
  \<^verbatim>\<open>attributes\<close> (as it is whenever the identity lookup fails), the worker returns
  a record; in it a failed switch lookup leaves \<^verbatim>\<open>switch_name\<close> at
  \<^verbatim>\<open>"Unknown"\<close>, a failed interface lookup leaves \<^verbatim>\<open>switch_interface\<close> empty,
  and a failed identity lookup adds no field beyond the base fields and the two
  switch fields. A worker raises only for a truthy unhashable \<^verbatim>\<open>nadID\<close> or for
  identity data of another shape, never because a lookup failed. A batch of such
  devices returns one record for each device (in get-agni-clients-by-segment.py
  too, where failed identity lookups leave the base records unchanged).
\<close>

theorem failed_lookups_leave_defaults:
  "(\<forall>resp. lookup_failed resp \<longrightarrow>
       fetch_nad_name resp = None \<and> session_details_value resp = JStr []
       \<and> client_data_value resp = JObj [] \<and> mergeable (client_data_value resp))
   \<and> ((\<not> truthy (dict_get sess_data ''nadID'') \<or> hashable (dict_get sess_data ''nadID''))
        \<and> (\<forall>n. mergeable (client_data_value (api (ClientGet mac) n)))
      \<longrightarrow> (\<exists>rec st'. enrich_device_worker api (mac, sess_data) (nad_cache, log) = Inr (rec, st')
             \<and> (truthy (dict_get sess_data ''nadID'')
                 \<and> vdict_lookup nad_cache (dict_get sess_data ''nadID'') = None
                 \<and> lookup_failed (api (NadGet (dict_get sess_data ''nadID'')) (length log))
                \<longrightarrow> map_of rec ''switch_name'' = Some (JStr ''Unknown''))
             \<and> (truthy (dict_get sess_data ''authReqID'')
                 \<and> (\<forall>n. lookup_failed (api (SessionDetailsGet (dict_get sess_data ''authReqID'')) n))
                \<longrightarrow> map_of rec ''switch_interface'' = Some (JStr []))
             \<and> ((\<forall>n. lookup_failed (api (ClientGet mac) n))
                \<longrightarrow> fst ` set rec
                      \<subseteq> fst ` set sess_data \<union> {''switch_name'', ''switch_interface''})))
   \<and> (\<forall>e. enrich_device_worker api (mac, sess_data) st = Inl e
        \<longrightarrow> (truthy (dict_get sess_data ''nadID'') \<and> \<not> hashable (dict_get sess_data ''nadID''))
            \<or> (\<exists>n. \<not> mergeable (client_data_value (api (ClientGet mac) n))))
   \<and> (\<forall>rec st'. enrich_device_worker api (mac, sess_data) (nad_cache, log) = Inr (rec, st')
        \<and> truthy (dict_get sess_data ''nadID'')
        \<and> vdict_lookup nad_cache (dict_get sess_data ''nadID'') = None
        \<and> lookup_failed (api (NadGet (dict_get sess_data ''nadID'')) (length log))
      \<longrightarrow> map_of rec ''switch_name'' = Some (JStr ''Unknown''))
   \<and> (\<forall>rec st'. enrich_device_worker api (mac, sess_data) st = Inr (rec, st')
        \<and> truthy (dict_get sess_data ''authReqID'')
        \<and> (\<forall>n. lookup_failed (api (SessionDetailsGet (dict_get sess_data ''authReqID'')) n))
      \<longrightarrow> map_of rec ''switch_interface'' = Some (JStr []))
   \<and> ((\<forall>item\<in>set unique_devs.
           \<not> truthy (dict_get (snd item) ''nadID'') \<or> hashable (dict_get (snd item) ''nadID''))
        \<and> (\<forall>m n. mergeable (client_data_value (api (ClientGet m) n)))
      \<longrightarrow> (\<exists>recs st'. final_records api True unique_devs st = Inr (recs, st')
             \<and> length recs = length unique_devs))
   \<and> ((\<forall>m n. mergeable (client_data_value (api (ClientGet m) n)))
      \<longrightarrow> (\<exists>recs log'. segment_final_records api True unique_devs log = Inr (recs, log')
             \<and> length recs = length unique_devs))
   \<and> ((\<forall>m n. lookup_failed (api (ClientGet m) n))
      \<longrightarrow> (\<exists>log'. segment_final_records api True unique_devs log = Inr (map snd unique_devs, log')))"
proof (intro conjI allI impI)
  fix resp assume f: "lookup_failed resp"
  from lookup_failed_defaults[OF f]
  show "fetch_nad_name resp = None" "session_details_value resp = JStr []"
    "client_data_value resp = JObj []"
    by simp_all
  from f show "mergeable (client_data_value resp)" by (rule lookup_failed_mergeable)
next
  assume "(\<not> truthy (dict_get sess_data ''nadID'') \<or> hashable (dict_get sess_data ''nadID''))
        \<and> (\<forall>n. mergeable (client_data_value (api (ClientGet mac) n)))"
  then show "\<exists>rec st'. enrich_device_worker api (mac, sess_data) (nad_cache, log) = Inr (rec, st')
             \<and> (truthy (dict_get sess_data ''nadID'')
                 \<and> vdict_lookup nad_cache (dict_get sess_data ''nadID'') = None
                 \<and> lookup_failed (api (NadGet (dict_get sess_data ''nadID'')) (length log))
                \<longrightarrow> map_of rec ''switch_name'' = Some (JStr ''Unknown''))
             \<and> (truthy (dict_get sess_data ''authReqID'')
                 \<and> (\<forall>n. lookup_failed (api (SessionDetailsGet (dict_get sess_data ''authReqID'')) n))
                \<longrightarrow> map_of rec ''switch_interface'' = Some (JStr []))
             \<and> ((\<forall>n. lookup_failed (api (ClientGet mac) n))
                \<longrightarrow> fst ` set rec
                      \<subseteq> fst ` set sess_data \<union> {''switch_name'', ''switch_interface''})"
    by (elim conjE) (rule worker_failed_lookup_fields)
next
  fix e assume inl: "enrich_device_worker api (mac, sess_data) st = Inl e"
  show "(truthy (dict_get sess_data ''nadID'') \<and> \<not> hashable (dict_get sess_data ''nadID''))
            \<or> (\<exists>n. \<not> mergeable (client_data_value (api (ClientGet mac) n)))"
  proof (rule ccontr)
    assume neg: "\<not> ((truthy (dict_get sess_data ''nadID'') \<and> \<not> hashable (dict_get sess_data ''nadID''))
            \<or> (\<exists>n. \<not> mergeable (client_data_value (api (ClientGet mac) n))))"
    then have nad: "\<not> truthy (dict_get sess_data ''nadID'') \<or> hashable (dict_get sess_data ''nadID'')"
      and mg: "\<forall>n. mergeable (client_data_value (api (ClientGet mac) n))"
      by (metis, metis)
    from worker_total[where api=api and mac=mac and sess=sess_data and st=st, OF nad mg] inl
    show False by simp
  qed
next
  fix rec st'
  assume "enrich_device_worker api (mac, sess_data) (nad_cache, log) = Inr (rec, st')
        \<and> truthy (dict_get sess_data ''nadID'')
        \<and> vdict_lookup nad_cache (dict_get sess_data ''nadID'') = None
        \<and> lookup_failed (api (NadGet (dict_get sess_data ''nadID'')) (length log))"
  then show "map_of rec ''switch_name'' = Some (JStr ''Unknown'')"
    by (elim conjE) (rule worker_switch_name_unknown)
next
  fix rec st'
  assume "enrich_device_worker api (mac, sess_data) st = Inr (rec, st')
        \<and> truthy (dict_get sess_data ''authReqID'')
        \<and> (\<forall>n. lookup_failed (api (SessionDetailsGet (dict_get sess_data ''authReqID'')) n))"
  then show "map_of rec ''switch_interface'' = Some (JStr [])"
    by (elim conjE) (rule worker_switch_interface_empty)
next
  assume a: "(\<forall>item\<in>set unique_devs.
           \<not> truthy (dict_get (snd item) ''nadID'') \<or> hashable (dict_get (snd item) ''nadID''))
        \<and> (\<forall>m n. mergeable (client_data_value (api (ClientGet m) n)))"
  have tot: "\<forall>item\<in>set unique_devs. \<forall>s. \<exists>r s'. enrich_device_worker api item s = Inr (r, s')"
  proof (intro ballI allI)
    fix item s assume m: "item \<in> set unique_devs"
    obtain mc sess where it: "item = (mc, sess)" by (cases item)
    have n: "\<not> truthy (dict_get sess ''nadID'') \<or> hashable (dict_get sess ''nadID'')"
      using a m it by auto
    have c: "\<forall>n. mergeable (client_data_value (api (ClientGet mc) n))" using a by simp
    from worker_total[where api=api and mac=mc and sess=sess and st=s, OF n c]
    show "\<exists>r s'. enrich_device_worker api item s = Inr (r, s')" unfolding it .
  qed
  from executor_map_total[OF tot, of st]
  show "\<exists>recs st'. final_records api True unique_devs st = Inr (recs, st')
             \<and> length recs = length unique_devs"
    by (cases "unique_devs = []") (simp_all add: final_records_def)
next
  assume a: "\<forall>m n. mergeable (client_data_value (api (ClientGet m) n))"
  have tot: "\<forall>item\<in>set unique_devs. \<forall>l. \<exists>r l'. segment_enrich_device api item l = Inr (r, l')"
  proof (intro ballI allI)
    fix item l assume m: "item \<in> set unique_devs"
    obtain mc sess where it: "item = (mc, sess)" by (cases item)
    have c: "\<forall>n. mergeable (client_data_value (api (ClientGet mc) n))" using a by simp
    from segment_enrich_total[where api=api and mac=mc and sess=sess and log=l, OF c]
    show "\<exists>r l'. segment_enrich_device api item l = Inr (r, l')" unfolding it .
  qed
  from executor_map_total[OF tot, of log]
  show "\<exists>recs log'. segment_final_records api True unique_devs log = Inr (recs, log')
             \<and> length recs = length unique_devs"
    by (cases "unique_devs = []") (simp_all add: segment_final_records_def)
next
  assume "\<forall>m n. lookup_failed (api (ClientGet m) n)"
  from segment_batch_client_failed[OF this, of unique_devs log]
  show "\<exists>log'. segment_final_records api True unique_devs log = Inr (map snd unique_devs, log')"
    by (cases "unique_devs = []") (simp_all add: segment_final_records_def)
qed

lemma dev2_worker_down:
  "enrich_device_worker down_api (mac2, dev2) ([], [])
     = Inr (dev2_unknown, ([], [NadGet (JStr ''nad-1''), ClientGet mac2]))"
  by (simp add: eval_defs down_api_def dev2_def mac2_def dev2_unknown_def)

lemma dev1_worker_down:
  "enrich_device_worker down_api (mac1, dev1) ([], [])
     = Inr (dev1_unknown,
            ([], [NadGet (JStr ''nad-1''), SessionDetailsGet (JStr ''req-123''), ClientGet mac1]))"
  by (simp add: eval_defs down_api_def dev1_def mac1_def dev1_unknown_def)

text \<open>
  C7 as stated fails for the switch name: when the switch lookup fails, the field
  \<^verbatim>\<open>switch_name\<close> of the record is neither absent nor empty, it holds the
  placeholder \<^verbatim>\<open>"Unknown"\<close>.
\<close>

theorem failed_switch_lookup_yields_unknown:
  "enrich_device_worker down_api (mac2, dev2) ([], [])
     = Inr (dev2_unknown, ([], [NadGet (JStr ''nad-1''), ClientGet mac2]))
   \<and> down_api (NadGet (JStr ''nad-1'')) 0 = Failed
   \<and> map_of dev2_unknown ''switch_name'' = Some (JStr ''Unknown'')
   \<and> truthy (JStr ''Unknown'')"
  by (simp add: eval_defs down_api_def dev2_def mac2_def dev2_unknown_def)

lemma dev1_worker_switch_down:
  "enrich_device_worker switch_down_api (mac1, dev1) ([], [])
     = Inr (dev1_partial,
            ([], [NadGet (JStr ''nad-1''), SessionDetailsGet (JStr ''req-123''), ClientGet mac1]))"
  by (simp add: eval_defs switch_down_api_def dev1_def mac1_def dev1_partial_def)

lemma dev_list_nad_worker:
  "enrich_device_worker switch_down_api (mac2, dev_list_nad) ([], []) = Inl TypeError"
  by (simp add: eval_defs switch_down_api_def dev_list_nad_def mac2_def)

theorem failed_lookups_leave_defaults_witness:
  "lookup_failed Failed \<and> client_data_value Failed = JObj []
   \<and> hashable (dict_get dev1 ''nadID'')
   \<and> (\<forall>n. mergeable (client_data_value (switch_down_api (ClientGet mac1) n)))
   \<and> (\<exists>rec st'. enrich_device_worker switch_down_api (mac1, dev1) ([], []) = Inr (rec, st')
          \<and> (truthy (dict_get dev1 ''nadID'')
              \<and> vdict_lookup ([]::(json \<times> json) list) (dict_get dev1 ''nadID'') = None
              \<and> lookup_failed (switch_down_api (NadGet (dict_get dev1 ''nadID''))
                                (length ([]::request list)))
             \<longrightarrow> map_of rec ''switch_name'' = Some (JStr ''Unknown''))
          \<and> (truthy (dict_get dev1 ''authReqID'')
              \<and> (\<forall>n. lookup_failed (switch_down_api (SessionDetailsGet (dict_get dev1 ''authReqID'')) n))
             \<longrightarrow> map_of rec ''switch_interface'' = Some (JStr []))
          \<and> ((\<forall>n. lookup_failed (switch_down_api (ClientGet mac1) n))
             \<longrightarrow> fst ` set rec \<subseteq> fst ` set dev1 \<union> {''switch_name'', ''switch_interface''}))
   \<and> enrich_device_worker switch_down_api (mac1, dev1) ([], [])
       = Inr (dev1_partial,
              ([], [NadGet (JStr ''nad-1''), SessionDetailsGet (JStr ''req-123''), ClientGet mac1]))
   \<and> truthy (dict_get dev1 ''nadID'')
   \<and> lookup_failed (switch_down_api (NadGet (dict_get dev1 ''nadID'')) (length ([]::request list)))
   \<and> map_of dev1_partial ''switch_name'' = Some (JStr ''Unknown'')
   \<and> truthy (dict_get dev1 ''authReqID'')
   \<and> (\<forall>n. lookup_failed (switch_down_api (SessionDetailsGet (dict_get dev1 ''authReqID'')) n))
   \<and> map_of dev1_partial ''switch_interface'' = Some (JStr [])
   \<and> map_of dev1_partial ''description'' = Some (JStr ''laptop'')
   \<and> enrich_device_worker switch_down_api (mac2, dev_list_nad) ([], []) = Inl TypeError
   \<and> (truthy (dict_get dev_list_nad ''nadID'') \<and> \<not> hashable (dict_get dev_list_nad ''nadID'')
       \<or> (\<exists>n. \<not> mergeable (client_data_value (switch_down_api (ClientGet mac2) n))))
   \<and> (\<exists>recs st'. final_records switch_down_api True [(mac1, dev1), (mac2, dev2)] ([], [])
                     = Inr (recs, st')
          \<and> length recs = length [(mac1, dev1), (mac2, dev2)])
   \<and> (\<exists>recs log'. segment_final_records switch_down_api True [(mac1, dev1), (mac2, dev2)] []
                      = Inr (recs, log')
          \<and> length recs = length [(mac1, dev1), (mac2, dev2)])
   \<and> (\<forall>m n. lookup_failed (down_api (ClientGet m) n))
   \<and> (\<exists>log'. segment_final_records down_api True [(mac1, dev1), (mac2, dev2)] []
          = Inr (map snd [(mac1, dev1), (mac2, dev2)], log'))"
proof -
  note t = failed_lookups_leave_defaults[where api=switch_down_api and mac=mac1
      and sess_data=dev1 and st="([], [])" and nad_cache="[]" and log="[]"
      and unique_devs="[(mac1, dev1), (mac2, dev2)]"]
  note u = failed_lookups_leave_defaults[where api=switch_down_api and mac=mac2
      and sess_data=dev_list_nad and st="([], [])" and nad_cache="[]" and log="[]"
      and unique_devs="[(mac1, dev1), (mac2, dev2)]"]
  note d = failed_lookups_leave_defaults[where api=down_api and mac=mac1
      and sess_data=dev1 and st="([], [])" and nad_cache="[]" and log="[]"
      and unique_devs="[(mac1, dev1), (mac2, dev2)]"]
  note t1 = conjunct1[OF t]
  note t2 = conjunct1[OF conjunct2[OF t]]
  note u3 = conjunct1[OF conjunct2[OF conjunct2[OF u]]]
  note t4 = conjunct1[OF conjunct2[OF conjunct2[OF conjunct2[OF t]]]]
  note t5 = conjunct1[OF conjunct2[OF conjunct2[OF conjunct2[OF conjunct2[OF t]]]]]
  note t6 = conjunct1[OF conjunct2[OF conjunct2[OF conjunct2[OF conjunct2[OF conjunct2[OF t]]]]]]
  note t7 = conjunct1[OF conjunct2[OF conjunct2[OF conjunct2[OF conjunct2[OF conjunct2[OF conjunct2[OF t]]]]]]]
  note d8 = conjunct2[OF conjunct2[OF conjunct2[OF conjunct2[OF conjunct2[OF conjunct2[OF conjunct2[OF d]]]]]]]
  have f0: "lookup_failed Failed" by simp
  have c0: "client_data_value Failed = JObj []"
    by (rule conjunct1[OF conjunct2[OF conjunct2[OF mp[OF spec[OF t1] f0]]]])
  have h: "hashable (dict_get dev1 ''nadID'')" by (simp add: dev1_def dict_get_def)
  have mg: "\<forall>n. mergeable (client_data_value (switch_down_api (ClientGet mac1) n))"
    by (simp add: switch_down_api_def mergeable_def dict_get_default_def)
  have mga: "\<forall>m n. mergeable (client_data_value (switch_down_api (ClientGet m) n))"
    by (simp add: switch_down_api_def mergeable_def dict_get_default_def)
  have c2: "\<exists>rec st'. enrich_device_worker switch_down_api (mac1, dev1) ([], []) = Inr (rec, st')
          \<and> (truthy (dict_get dev1 ''nadID'')
              \<and> vdict_lookup ([]::(json \<times> json) list) (dict_get dev1 ''nadID'') = None
              \<and> lookup_failed (switch_down_api (NadGet (dict_get dev1 ''nadID''))
                                (length ([]::request list)))
             \<longrightarrow> map_of rec ''switch_name'' = Some (JStr ''Unknown''))
          \<and> (truthy (dict_get dev1 ''authReqID'')
              \<and> (\<forall>n. lookup_failed (switch_down_api (SessionDetailsGet (dict_get dev1 ''authReqID'')) n))
             \<longrightarrow> map_of rec ''switch_interface'' = Some (JStr []))
          \<and> ((\<forall>n. lookup_failed (switch_down_api (ClientGet mac1) n))
             \<longrightarrow> fst ` set rec \<subseteq> fst ` set dev1 \<union> {''switch_name'', ''switch_interface''})"
    by (rule mp[OF t2 conjI[OF disjI2[OF h] mg]])
  note w = dev1_worker_switch_down
  have tn: "truthy (dict_get dev1 ''nadID'')" by (simp add: dev1_def dict_get_def)
  have nc: "vdict_lookup ([]::(json \<times> json) list) (dict_get dev1 ''nadID'') = None" by simp
  have nf: "lookup_failed (switch_down_api (NadGet (dict_get dev1 ''nadID'')) (length ([]::request list)))"
    by (simp add: switch_down_api_def dev1_def dict_get_def)
  have c3: "map_of dev1_partial ''switch_name'' = Some (JStr ''Unknown'')"
    by (rule mp[OF spec[OF spec[OF t4]] conjI[OF w conjI[OF tn conjI[OF nc nf]]]])
  have ta: "truthy (dict_get dev1 ''authReqID'')" by (simp add: dev1_def dict_get_def)
  have af: "\<forall>n. lookup_failed (switch_down_api (SessionDetailsGet (dict_get dev1 ''authReqID'')) n)"
    by (simp add: switch_down_api_def dev1_def dict_get_def)
  have c4: "map_of dev1_partial ''switch_interface'' = Some (JStr [])"
    by (rule mp[OF spec[OF spec[OF t5]] conjI[OF w conjI[OF ta af]]])
  have c4b: "map_of dev1_partial ''description'' = Some (JStr ''laptop'')"
    by (simp add: dev1_partial_def)
  note wl = dev_list_nad_worker
  have c5: "truthy (dict_get dev_list_nad ''nadID'') \<and> \<not> hashable (dict_get dev_list_nad ''nadID'')
       \<or> (\<exists>n. \<not> mergeable (client_data_value (switch_down_api (ClientGet mac2) n)))"
    by (rule mp[OF spec[OF u3] wl])
  have hs: "\<forall>item\<in>set [(mac1, dev1), (mac2, dev2)].
           \<not> truthy (dict_get (snd item) ''nadID'') \<or> hashable (dict_get (snd item) ''nadID'')"
    by (simp add: dev1_def dev2_def dict_get_def)
  have c6: "\<exists>recs st'. final_records switch_down_api True [(mac1, dev1), (mac2, dev2)] ([], [])
                     = Inr (recs, st')
          \<and> length recs = length [(mac1, dev1), (mac2, dev2)]"
    by (rule mp[OF t6 conjI[OF hs mga]])
  have c7: "\<exists>recs log'. segment_final_records switch_down_api True [(mac1, dev1), (mac2, dev2)] []
                      = Inr (recs, log')
          \<and> length recs = length [(mac1, dev1), (mac2, dev2)]"
    by (rule mp[OF t7 mga])
  have cfa: "\<forall>m n. lookup_failed (down_api (ClientGet m) n)" by (simp add: down_api_def)
  have c8: "\<exists>log'. segment_final_records down_api True [(mac1, dev1), (mac2, dev2)] []
          = Inr (map snd [(mac1, dev1), (mac2, dev2)], log')"
    by (rule mp[OF d8 cfa])
  show ?thesis
    by (intro conjI) (rule f0 c0 h mg c2 w tn nf c3 ta af c4 c4b wl c5 c6 c7 cfa c8)+
qed

end
